theory Spec2Isabelle
  imports Main "HOL-Library.Word"
begin

unbundle bit_operations_syntax

section \<open>Shared types and constants (common.ts)\<close>

type_synonym byte = "8 word"
type_synonym bytes = "byte list"

datatype EncryptionAlgorithm = Aes128Ctr | Aes192Ctr | Aes256Ctr

datatype CompressionAlgorithm = Zstd | Gzip | Brotli | Deflate

text \<open>The timestamp formats \<^verbatim>\<open>"iso"\<close>, \<^verbatim>\<open>"unix"\<close> and \<^verbatim>\<open>"none"\<close>.\<close>

datatype TimestampFormat = TsIso | TsUnix | TsNone

definition IV_SIZE :: nat where
  "IV_SIZE = 16"

fun compression_name :: "CompressionAlgorithm \<Rightarrow> string" where
  "compression_name Zstd = ''zstd''"
| "compression_name Gzip = ''gzip''"
| "compression_name Brotli = ''brotli''"
| "compression_name Deflate = ''deflate''"

text \<open>Every \<^verbatim>\<open>throw new Error(...)\<close> of the sources, and every rejection of a runtime
  call the sources do not catch, is a value of this type.\<close>

datatype error =
    ConfigError string
  | InvalidS3Url string
  | ListingFailed string
  | ReadFailed string
  | TooSmall
  | ChecksumMismatch string string
  | S3HashUnsupported
  | InvalidKeyLength
  | DecompressFailed
  | TarFailed
  | InvalidIvLength
  | MkdirFailed string
  | SinkOpenFailed string
  | SinkEndFailed string
  | SidecarWriteFailed string

section \<open>String helpers of the JavaScript runtime\<close>

definition starts_with :: "string \<Rightarrow> string \<Rightarrow> bool" where
  "starts_with s p = (take (length p) s = p)"

definition ends_with :: "string \<Rightarrow> string \<Rightarrow> bool" where
  "ends_with s p = (length p \<le> length s \<and> drop (length s - length p) s = p)"

text \<open>The checksum sidecar of an archive: \<^verbatim>\<open>`${file}.sha256`\<close>.\<close>

definition sidecar :: "string \<Rightarrow> string" where
  "sidecar file = file @ ''.sha256''"

text \<open>\<^verbatim>\<open>key.split("/").pop() || ""\<close>: the text after the last slash.\<close>

definition last_segment :: "string \<Rightarrow> string" where
  "last_segment key = rev (takeWhile (\<lambda>c. c \<noteq> CHR ''/'') (rev key))"

text \<open>\<^verbatim>\<open>Array.prototype.slice(start)\<close> with one argument; a negative start counts
  from the end.\<close>

definition js_slice_from :: "int \<Rightarrow> 'a list \<Rightarrow> 'a list" where
  "js_slice_from start xs =
     (let n = int (length xs);
          k = (if start < 0 then max (n + start) 0 else min start n)
      in drop (nat k) xs)"

section \<open>Regular expressions used by cleanup.ts\<close>

text \<open>A dot of a JavaScript regular expression (without the \<^verbatim>\<open>s\<close> flag) matches every
  character but a line terminator.\<close>

definition is_dot_char :: "char \<Rightarrow> bool" where
  "is_dot_char c = (c \<noteq> CHR 0x0A \<and> c \<noteq> CHR 0x0D)"

text \<open>The pattern strings cleanup builds hold literal characters, dots and \<^verbatim>\<open>.*\<close>
  only, so these three atoms are the whole regular-expression language needed.\<close>

datatype rx_atom = Lit char | AnyChar | AnyStar

text \<open>\<^verbatim>\<open>backupPattern.replace(/\*/g, ".*")\<close>\<close>

fun replace_star :: "string \<Rightarrow> string" where
  "replace_star [] = []"
| "replace_star (c # cs) =
     (if c = CHR ''*'' then CHR ''.'' # CHR ''*'' # replace_star cs else c # replace_star cs)"

text \<open>\<^verbatim>\<open>new RegExp(...)\<close> on such a string: a dot followed by a star is \<^verbatim>\<open>.*\<close>, any
  other dot is the wildcard, everything else stands for itself. Nothing is escaped.\<close>

fun parse_regex :: "string \<Rightarrow> rx_atom list" where
  "parse_regex [] = []"
| "parse_regex [c] = (if c = CHR ''.'' then [AnyChar] else [Lit c])"
| "parse_regex (c # d # ds) =
     (if c = CHR ''.'' \<and> d = CHR ''*'' then AnyStar # parse_regex ds
      else if c = CHR ''.'' then AnyChar # parse_regex (d # ds)
      else Lit c # parse_regex (d # ds))"

text \<open>\<^verbatim>\<open>new RegExp(`^${patternRegex}$`).test(file)\<close>: the anchored match.\<close>

fun regex_test :: "rx_atom list \<Rightarrow> string \<Rightarrow> bool" where
  "regex_test [] s = (s = [])"
| "regex_test (Lit c # r) [] = False"
| "regex_test (Lit c # r) (d # s) = (c = d \<and> regex_test r s)"
| "regex_test (AnyChar # r) [] = False"
| "regex_test (AnyChar # r) (d # s) = (is_dot_char d \<and> regex_test r s)"
| "regex_test (AnyStar # r) [] = regex_test r []"
| "regex_test (AnyStar # r) (d # s) =
     (regex_test r (d # s) \<or> (is_dot_char d \<and> regex_test (AnyStar # r) s))"

definition matches_pattern :: "string \<Rightarrow> string \<Rightarrow> bool" where
  "matches_pattern backupPattern file = regex_test (parse_regex (replace_star backupPattern)) file"

text \<open>\<^verbatim>\<open>filename.match(/^backup_(.+?)\.tar\./)\<close>: the lazy group is the shortest
  non-empty run of non-line-terminator characters that \<^verbatim>\<open>.tar.\<close> follows.\<close>

fun lazy_group :: "string \<Rightarrow> string \<Rightarrow> string option" where
  "lazy_group acc [] = None"
| "lazy_group acc (c # cs) =
     (if \<not> is_dot_char c then None
      else if starts_with cs ''.tar.'' then Some (acc @ [c])
      else lazy_group (acc @ [c]) cs)"

definition extractTimestamp :: "string \<Rightarrow> string option" where
  "extractTimestamp filename =
     (if starts_with filename ''backup_'' then lazy_group [] (drop 7 filename) else None)"

section \<open>Retention (cleanup.ts)\<close>

text \<open>The state cleanup works on. A local directory is the list of its entries in the
  order \<^verbatim>\<open>readdir\<close> returns them; a bucket is the list of its objects in the order
  \<^verbatim>\<open>S3Client.list\<close> returns them. Every listing and deletion request is recorded in
  \<open>io_log\<close>, whether it succeeds or not.\<close>

datatype io_op =
    Readdir string
  | Unlink string string
  | S3List string string
  | S3Delete string string

record storage =
  local_dirs :: "string \<Rightarrow> (string \<times> bytes) list option"
  s3_buckets :: "string \<Rightarrow> (string \<times> bytes) list option"
  io_log :: "io_op list"

text \<open>\<^verbatim>\<open>unlink(join(destination, file)).catch(() => {})\<close>: the entry is removed; the
  rejection for a missing entry is swallowed.\<close>

definition unlink :: "string \<Rightarrow> string \<Rightarrow> storage \<Rightarrow> storage" where
  "unlink destination file st =
     (case local_dirs st destination of
        None \<Rightarrow> st\<lparr>io_log := io_log st @ [Unlink destination file]\<rparr>
      | Some entries \<Rightarrow>
          st\<lparr>local_dirs := (local_dirs st)(destination \<mapsto> filter (\<lambda>e. fst e \<noteq> file) entries),
             io_log := io_log st @ [Unlink destination file]\<rparr>)"

text \<open>\<^verbatim>\<open>S3Client.delete(key, { bucket }).catch(() => {})\<close>\<close>

definition s3_delete :: "string \<Rightarrow> string \<Rightarrow> storage \<Rightarrow> storage" where
  "s3_delete bucket key st =
     (case s3_buckets st bucket of
        None \<Rightarrow> st\<lparr>io_log := io_log st @ [S3Delete bucket key]\<rparr>
      | Some objs \<Rightarrow>
          st\<lparr>s3_buckets := (s3_buckets st)(bucket \<mapsto> filter (\<lambda>e. fst e \<noteq> key) objs),
             io_log := io_log st @ [S3Delete bucket key]\<rparr>)"

text \<open>The comparator of both sorts. \<open>localeCompare\<close> is the runtime's
  \<^verbatim>\<open>String.prototype.localeCompare\<close>, a parameter of the model.\<close>

definition is_falsy :: "string option \<Rightarrow> bool" where
  "is_falsy t = (t = None \<or> t = Some [])"

definition compare_backups :: "(string \<Rightarrow> string \<Rightarrow> int) \<Rightarrow> string \<Rightarrow> string \<Rightarrow> int" where
  "compare_backups localeCompare a b =
     (let timestampA = extractTimestamp a;
          timestampB = extractTimestamp b
      in if is_falsy timestampA \<or> is_falsy timestampB then 0
         else localeCompare (the timestampB) (the timestampA))"

fun delete_local :: "string \<Rightarrow> string list \<Rightarrow> storage \<Rightarrow> storage" where
  "delete_local destination [] st = st"
| "delete_local destination (file # filesToDelete) st =
     delete_local destination filesToDelete
       (unlink destination (sidecar file) (unlink destination file st))"

text \<open>\<open>array_sort\<close> is the runtime's \<^verbatim>\<open>Array.prototype.sort\<close>, a parameter of the
  model like \<open>localeCompare\<close>: the language fixes its result for a consistent
  comparator only, and the order it produces otherwise is the engine's.\<close>

type_synonym sort_fn = "(string \<Rightarrow> string \<Rightarrow> int) \<Rightarrow> string list \<Rightarrow> string list"

definition cleanupLocalBackups ::
  "(string \<Rightarrow> string \<Rightarrow> int) \<Rightarrow> sort_fn \<Rightarrow> storage \<Rightarrow> string \<Rightarrow> int \<Rightarrow> string \<Rightarrow>
     storage \<times> (error + unit)" where
  "cleanupLocalBackups localeCompare array_sort st destination count backupPattern =
     (let st1 = st\<lparr>io_log := io_log st @ [Readdir destination]\<rparr> in
      case local_dirs st destination of
        None \<Rightarrow> (st1, Inl (ListingFailed destination))
      | Some entries \<Rightarrow>
          let files = map fst entries;
              backupFiles = filter (matches_pattern backupPattern) files
          in if int (length backupFiles) \<le> count then (st1, Inr ())
             else
               let sorted = array_sort (compare_backups localeCompare) backupFiles;
                   filesToDelete = js_slice_from count sorted
               in (delete_local destination filesToDelete st1, Inr ()))"

text \<open>\<^verbatim>\<open>url.match(/^s3:\/\/([^\/]+)(?:\/(.+))?$/)\<close>\<close>

definition parseS3Url :: "string \<Rightarrow> error + (string \<times> string)" where
  "parseS3Url url =
     (if \<not> starts_with url ''s3://'' then Inl (InvalidS3Url url)
      else
        let rest = drop 5 url;
            bucket = takeWhile (\<lambda>c. c \<noteq> CHR ''/'') rest;
            tail = dropWhile (\<lambda>c. c \<noteq> CHR ''/'') rest
        in if bucket = [] then Inl (InvalidS3Url url)
           else if tail = [] then Inr (bucket, [])
           else if tl tail \<noteq> [] \<and> list_all is_dot_char (tl tail) then Inr (bucket, tl tail)
           else Inl (InvalidS3Url url))"

fun delete_s3 :: "string \<Rightarrow> string list \<Rightarrow> storage \<Rightarrow> storage" where
  "delete_s3 bucket [] st = st"
| "delete_s3 bucket (fileKey # filesToDelete) st =
     delete_s3 bucket filesToDelete
       (s3_delete bucket (sidecar fileKey) (s3_delete bucket fileKey st))"

text \<open>The comparator of the S3 sort compares the timestamps of the keys' file names.\<close>

definition compare_keys :: "(string \<Rightarrow> string \<Rightarrow> int) \<Rightarrow> string \<Rightarrow> string \<Rightarrow> int" where
  "compare_keys localeCompare a b =
     compare_backups localeCompare (last_segment a) (last_segment b)"

text \<open>\<^verbatim>\<open>S3Client.list({ prefix }, { bucket })\<close> answers with the keys under the prefix, or
  rejects for a bucket that does not exist. A listing without \<^verbatim>\<open>contents\<close> is the empty
  listing.\<close>

definition listPrefix_of :: "string \<Rightarrow> string" where
  "listPrefix_of prefix =
     (if prefix \<noteq> [] then (if ends_with prefix ''/'' then prefix else prefix @ ''/'') else [])"

definition cleanupS3Backups ::
  "(string \<Rightarrow> string \<Rightarrow> int) \<Rightarrow> sort_fn \<Rightarrow> storage \<Rightarrow> string \<Rightarrow> int \<Rightarrow> string \<Rightarrow>
     storage \<times> (error + unit)" where
  "cleanupS3Backups localeCompare array_sort st destination count backupPattern =
     (case parseS3Url destination of
        Inl e \<Rightarrow> (st, Inl e)
      | Inr (bucket, prefix) \<Rightarrow>
          let listPrefix = listPrefix_of prefix;
              st1 = st\<lparr>io_log := io_log st @ [S3List bucket listPrefix]\<rparr>
          in case s3_buckets st bucket of
               None \<Rightarrow> (st1, Inl (ListingFailed destination))
             | Some objs \<Rightarrow>
                 let contents = filter (\<lambda>key. starts_with key listPrefix) (map fst objs) in
                 if contents = [] then (st1, Inr ())
                 else
                   let backupFiles =
                         filter (\<lambda>key. matches_pattern backupPattern (last_segment key)) contents
                   in if int (length backupFiles) \<le> count then (st1, Inr ())
                      else
                        let sorted = array_sort (compare_keys localeCompare) backupFiles;
                            filesToDelete = js_slice_from count sorted
                        in (delete_s3 bucket filesToDelete st1, Inr ()))"

definition backup_pattern :: "CompressionAlgorithm \<Rightarrow> string" where
  "backup_pattern compressionAlgorithm =
     ''backup_*.tar.'' @ compression_name compressionAlgorithm @ ''.crypt''"

definition cleanupOldBackups ::
  "(string \<Rightarrow> string \<Rightarrow> int) \<Rightarrow> sort_fn \<Rightarrow> storage \<Rightarrow> string \<Rightarrow> int \<Rightarrow> TimestampFormat \<Rightarrow>
     CompressionAlgorithm \<Rightarrow> storage \<times> (error + unit)" where
  "cleanupOldBackups localeCompare array_sort st destination count timestampFormat compressionAlgorithm =
     (if timestampFormat = TsNone
      then (st, Inl (ConfigError ''Sliding backup window requires timestamp format to be enabled''))
      else
        let backupPattern = backup_pattern compressionAlgorithm in
        if starts_with destination ''s3://''
        then cleanupS3Backups localeCompare array_sort st destination count backupPattern
        else cleanupLocalBackups localeCompare array_sort st destination count backupPattern)"

section \<open>The runtime and the libraries behind backup.ts and restore.ts\<close>

text \<open>The sources call Bun, \<^verbatim>\<open>node:crypto\<close>, \<^verbatim>\<open>node:path\<close>, the compression streams and
  \<^verbatim>\<open>tar-stream\<close>. Their code is not part of the repository, so what they compute is a
  parameter of the model:
  \<^item> \<open>glob_scan\<close>: the paths \<^verbatim>\<open>new Glob(pattern).scan()\<close> yields;
  \<^item> \<open>tar_pack\<close> and \<open>tar_entries\<close>: the bytes \<^verbatim>\<open>pack()\<close> produces for a list of entries
    (name, content), and the entries \<^verbatim>\<open>extract()\<close> reads from such bytes, or its error;
  \<^item> \<open>compress\<close> and \<open>decompress\<close>: \<^verbatim>\<open>CompressionStream\<close> and \<^verbatim>\<open>DecompressionStream\<close> on
    the whole stream;
  \<^item> \<open>keystream\<close>: the key stream of AES in counter mode, byte by byte;
  \<^item> \<open>randomBytes\<close>: \<^verbatim>\<open>crypto.randomBytes\<close>;
  \<^item> \<open>sha256_hex\<close> and \<open>hmac_sha256_hex\<close>: \<^verbatim>\<open>createHash("sha256")\<close> and
    \<^verbatim>\<open>createHmac("sha256", key)\<close> with \<^verbatim>\<open>digest("hex")\<close>;
  \<^item> \<open>path_join\<close>: \<^verbatim>\<open>path.join\<close>;
  \<^item> \<open>pipe_chunks\<close> and \<open>file_chunks\<close>: the chunks in which the compression stream
    emits its output and in which \<^verbatim>\<open>Bun.file(p).stream()\<close> delivers a file;
  \<^item> \<open>mkdir_ok\<close>, \<open>open_ok\<close>, \<open>write_ok\<close>, \<open>end_ok\<close>, \<open>file_write_ok\<close>: whether
    \<^verbatim>\<open>mkdirSync(dirname(p))\<close> returns, whether \<^verbatim>\<open>Bun.file(p).writer()\<close> returns a sink,
    whether \<^verbatim>\<open>write\<close> and \<^verbatim>\<open>flush\<close> on the sink of \<open>p\<close> resolve, whether its \<^verbatim>\<open>end\<close>
    resolves, and whether \<^verbatim>\<open>Bun.file(p).write\<close> resolves.\<close>

record runtime =
  glob_scan :: "string \<Rightarrow> string list"
  tar_pack :: "(string \<times> bytes) list \<Rightarrow> bytes"
  tar_entries :: "bytes \<Rightarrow> error + (string \<times> bytes) list"
  compress :: "CompressionAlgorithm \<Rightarrow> bytes \<Rightarrow> bytes"
  decompress :: "CompressionAlgorithm \<Rightarrow> bytes \<Rightarrow> error + bytes"
  keystream :: "EncryptionAlgorithm \<Rightarrow> bytes \<Rightarrow> bytes \<Rightarrow> nat \<Rightarrow> byte"
  randomBytes :: "nat \<Rightarrow> bytes"
  sha256_hex :: "bytes \<Rightarrow> string"
  hmac_sha256_hex :: "bytes \<Rightarrow> bytes \<Rightarrow> string"
  path_join :: "string \<Rightarrow> string \<Rightarrow> string"
  pipe_chunks :: "bytes \<Rightarrow> bytes list"
  file_chunks :: "bytes \<Rightarrow> bytes list"
  mkdir_ok :: "string \<Rightarrow> bool"
  open_ok :: "string \<Rightarrow> bool"
  write_ok :: "string \<Rightarrow> bool"
  end_ok :: "string \<Rightarrow> bool"
  file_write_ok :: "string \<Rightarrow> bool"

text \<open>The files and objects \<^verbatim>\<open>Bun.file(path)\<close> addresses, by path. An object of an
  object store is treated like a file.\<close>

type_synonym filesystem = "string \<Rightarrow> bytes option"

text \<open>Text written to and read from a file, one byte per character.\<close>

definition text_bytes :: "string \<Rightarrow> bytes" where
  "text_bytes s = map (\<lambda>c. of_nat (of_char c)) s"

definition bytes_text :: "bytes \<Rightarrow> string" where
  "bytes_text bs = map (\<lambda>b. char_of (unat b)) bs"

text \<open>\<^verbatim>\<open>String.prototype.trim\<close> on the ASCII white space.\<close>

definition is_white_space :: "char \<Rightarrow> bool" where
  "is_white_space c =
     (c = CHR 0x09 \<or> c = CHR 0x0A \<or> c = CHR 0x0B \<or> c = CHR 0x0C \<or> c = CHR 0x0D \<or> c = CHR 0x20)"

definition js_trim :: "string \<Rightarrow> string" where
  "js_trim s = rev (dropWhile is_white_space (rev (dropWhile is_white_space s)))"

section \<open>The stream cipher (createCipheriv, createDecipheriv)\<close>

text \<open>A cipher object of \<^verbatim>\<open>node:crypto\<close> in counter mode: it remembers how many bytes it
  has transformed, and \<^verbatim>\<open>update\<close> combines the next bytes with the key stream from that
  position on. Creating it throws for a key whose length does not fit the algorithm and
  for an initialization vector that is not 16 bytes long. \<^verbatim>\<open>final\<close> returns no bytes.\<close>

record cipher =
  cipher_alg :: EncryptionAlgorithm
  cipher_key :: bytes
  cipher_iv :: bytes
  cipher_pos :: nat

fun key_length :: "EncryptionAlgorithm \<Rightarrow> nat" where
  "key_length Aes128Ctr = 16"
| "key_length Aes192Ctr = 24"
| "key_length Aes256Ctr = 32"

definition createCipheriv :: "EncryptionAlgorithm \<Rightarrow> bytes \<Rightarrow> bytes \<Rightarrow> error + cipher" where
  "createCipheriv algorithm key iv =
     (if length key \<noteq> key_length algorithm then Inl InvalidKeyLength
      else if length iv \<noteq> 16 then Inl InvalidIvLength
      else Inr \<lparr>cipher_alg = algorithm, cipher_key = key, cipher_iv = iv, cipher_pos = 0\<rparr>)"

definition createDecipheriv :: "EncryptionAlgorithm \<Rightarrow> bytes \<Rightarrow> bytes \<Rightarrow> error + cipher" where
  "createDecipheriv algorithm key iv = createCipheriv algorithm key iv"

definition cipher_update :: "runtime \<Rightarrow> cipher \<Rightarrow> bytes \<Rightarrow> bytes \<times> cipher" where
  "cipher_update rt c chunk =
     (map2 (XOR) chunk
        (map (keystream rt (cipher_alg c) (cipher_key c) (cipher_iv c))
           [cipher_pos c ..< cipher_pos c + length chunk]),
      c\<lparr>cipher_pos := cipher_pos c + length chunk\<rparr>)"

definition cipher_final :: "cipher \<Rightarrow> bytes" where
  "cipher_final c = []"

text \<open>The transform stream of \<^verbatim>\<open>EncryptionStream\<close> and of \<^verbatim>\<open>DecryptionStream\<close>: every chunk
  goes through \<^verbatim>\<open>update\<close>, and the flush enqueues \<^verbatim>\<open>final()\<close>.\<close>

fun transform_chunks :: "runtime \<Rightarrow> cipher \<Rightarrow> bytes list \<Rightarrow> bytes list" where
  "transform_chunks rt c [] = [cipher_final c]"
| "transform_chunks rt c (chunk # chunks) =
     fst (cipher_update rt c chunk) # transform_chunks rt (snd (cipher_update rt c chunk)) chunks"

section \<open>Backup (backup.ts)\<close>

text \<open>\<^verbatim>\<open>readFiles\<close>: the paths of all patterns, in order.\<close>

definition readFiles :: "runtime \<Rightarrow> string list \<Rightarrow> string list" where
  "readFiles rt patterns = concat (map (glob_scan rt) patterns)"

text \<open>The entries \<^verbatim>\<open>createFileStream\<close> hands to the tar packer: the path as the name and
  the content of the file. A path that cannot be read destroys the stream with the
  error.\<close>

fun read_entries :: "filesystem \<Rightarrow> string list \<Rightarrow> error + (string \<times> bytes) list" where
  "read_entries fs [] = Inr []"
| "read_entries fs (path # paths) =
     (case fs path of
        None \<Rightarrow> Inl (ReadFailed path)
      | Some content \<Rightarrow>
          (case read_entries fs paths of
             Inl e \<Rightarrow> Inl e
           | Inr entries \<Rightarrow> Inr ((path, content) # entries)))"

definition createFileStream :: "runtime \<Rightarrow> filesystem \<Rightarrow> string list \<Rightarrow> error + bytes" where
  "createFileStream rt fs patterns =
     (case read_entries fs (readFiles rt patterns) of
        Inl e \<Rightarrow> Inl e
      | Inr entries \<Rightarrow> Inr (tar_pack rt entries))"

text \<open>\<^verbatim>\<open>prependIv\<close>: the initialization vector is the first chunk, every chunk of the
  stream follows.\<close>

definition prependIv :: "bytes \<Rightarrow> bytes list \<Rightarrow> bytes list" where
  "prependIv iv stream = iv # stream"

text \<open>A sink of \<^verbatim>\<open>Bun.file(outPath).writer()\<close>: its path and the bytes it has written so
  far. \<^verbatim>\<open>prepareOutputs\<close> makes one sink per output path, in order: the directory of a
  path that does not start with \<^verbatim>\<open>s3\<close> is created, then the sink is opened, which
  leaves an empty file at the path. Either step can throw (the second for a path that
  is a directory, say); the error is thrown on, and the files of the sinks opened
  before it stay behind, empty.\<close>

fun prepareOutputs ::
  "runtime \<Rightarrow> string list \<Rightarrow> filesystem \<Rightarrow> filesystem \<times> (error + (string \<times> bytes) list)" where
  "prepareOutputs rt [] fs = (fs, Inr [])"
| "prepareOutputs rt (outPath # outputPaths) fs =
     (if \<not> starts_with outPath ''s3'' \<and> \<not> mkdir_ok rt outPath then (fs, Inl (MkdirFailed outPath))
      else if \<not> open_ok rt outPath then (fs, Inl (SinkOpenFailed outPath))
      else (case prepareOutputs rt outputPaths (fs(outPath \<mapsto> [])) of
              (fs', Inl e) \<Rightarrow> (fs', Inl e)
            | (fs', Inr sinks) \<Rightarrow> (fs', Inr ((outPath, []) # sinks))))"

text \<open>One round of \<^verbatim>\<open>Promise.allSettled\<close>: every sink is offered the chunk. Where the
  write and the flush resolve, the sink has written the chunk and its path holds what
  the sink has written so far; where they reject, the rejection is dropped, the sink
  has not advanced and its path is left as it is.\<close>

fun write_flush_all ::
  "runtime \<Rightarrow> bytes \<Rightarrow> (string \<times> bytes) list \<Rightarrow> filesystem \<Rightarrow> (string \<times> bytes) list \<times> filesystem" where
  "write_flush_all rt chunk [] fs = ([], fs)"
| "write_flush_all rt chunk ((path, written) # writers) fs =
     (if write_ok rt path
      then (case write_flush_all rt chunk writers (fs(path \<mapsto> written @ chunk)) of
              (writers', fs') \<Rightarrow> ((path, written @ chunk) # writers', fs'))
      else (case write_flush_all rt chunk writers fs of
              (writers', fs') \<Rightarrow> ((path, written) # writers', fs')))"

text \<open>The reading loop of \<^verbatim>\<open>writeToMultipleSinks\<close>.\<close>

fun pump_chunks ::
  "runtime \<Rightarrow> bytes list \<Rightarrow> (string \<times> bytes) list \<Rightarrow> filesystem \<Rightarrow> filesystem" where
  "pump_chunks rt [] writers fs = fs"
| "pump_chunks rt (chunk # stream) writers fs =
     (case write_flush_all rt chunk writers fs of
        (writers', fs') \<Rightarrow> pump_chunks rt stream writers' fs')"

text \<open>The closing loop: \<^verbatim>\<open>await writer.end()\<close> for each sink in order; the first rejection
  is thrown and the sinks after it are not ended.\<close>

fun end_sinks :: "runtime \<Rightarrow> (string \<times> bytes) list \<Rightarrow> error + unit" where
  "end_sinks rt [] = Inr ()"
| "end_sinks rt ((path, written) # writers) =
     (if end_ok rt path then end_sinks rt writers else Inl (SinkEndFailed path))"

definition writeToMultipleSinks ::
  "runtime \<Rightarrow> bytes list \<Rightarrow> (string \<times> bytes) list \<Rightarrow> filesystem \<Rightarrow> filesystem \<times> (error + unit)" where
  "writeToMultipleSinks rt encryptedStream writers fs =
     (pump_chunks rt encryptedStream writers fs, end_sinks rt writers)"

text \<open>\<^verbatim>\<open>writeChecksumFiles\<close>: the digest and a newline, at \<^verbatim>\<open>`${outputPath}.sha256`\<close> of every
  output path in order; the first failing write is thrown.\<close>

fun writeChecksumFiles ::
  "runtime \<Rightarrow> string list \<Rightarrow> string \<Rightarrow> filesystem \<Rightarrow> filesystem \<times> (error + unit)" where
  "writeChecksumFiles rt [] checksum fs = (fs, Inr ())"
| "writeChecksumFiles rt (outputPath # outputPaths) checksum fs =
     (if file_write_ok rt (sidecar outputPath)
      then writeChecksumFiles rt outputPaths checksum
             (fs(sidecar outputPath \<mapsto> text_bytes (checksum @ [CHR 0x0A])))
      else (fs, Inl (SidecarWriteFailed (sidecar outputPath))))"

text \<open>\<^verbatim>\<open>backup\<close>. The cipher is created first, with a fresh random initialization vector
  of 16 bytes. The stream of the input files is created before the sinks, but its
  producer reads a file only after it has awaited the scan of the patterns, and
  \<^verbatim>\<open>prepareOutputs\<close> runs synchronously before that: the inputs are read from the file
  system as the opening of the sinks leaves it. The digest is taken over the
  chunks of the framed stream, the same chunks the sinks are offered. The result is
  the digest alone. An input file that cannot be read ends the call with the error;
  what the sinks have received by then is not modelled.\<close>

definition backup ::
  "runtime \<Rightarrow> filesystem \<Rightarrow> string list \<Rightarrow> string list \<Rightarrow> bytes \<Rightarrow> EncryptionAlgorithm \<Rightarrow>
     CompressionAlgorithm \<Rightarrow> filesystem \<times> (error + string)" where
  "backup rt fs patterns outputPaths key encryptionAlgorithm compressionAlgorithm =
     (let iv = randomBytes rt 16 in
      case createCipheriv encryptionAlgorithm key iv of
        Inl e \<Rightarrow> (fs, Inl e)
      | Inr cipher \<Rightarrow>
          (case prepareOutputs rt outputPaths fs of
             (fs0, Inl e) \<Rightarrow> (fs0, Inl e)
           | (fs0, Inr sinks) \<Rightarrow>
               (case createFileStream rt fs0 patterns of
                  Inl e \<Rightarrow> (fs0, Inl e)
                | Inr tar \<Rightarrow>
                    let compressedStream = pipe_chunks rt (compress rt compressionAlgorithm tar);
                        encryptedStream = transform_chunks rt cipher compressedStream;
                        streamWithIv = prependIv iv encryptedStream;
                        checksum = sha256_hex rt (concat streamWithIv)
                    in case writeToMultipleSinks rt streamWithIv sinks fs0 of
                         (fs1, Inl e) \<Rightarrow> (fs1, Inl e)
                       | (fs1, Inr u) \<Rightarrow>
                           (case writeChecksumFiles rt outputPaths checksum fs1 of
                              (fs2, Inl e) \<Rightarrow> (fs2, Inl e)
                            | (fs2, Inr u) \<Rightarrow> (fs2, Inr checksum)))))"

section \<open>Restore (restore.ts)\<close>

text \<open>\<^verbatim>\<open>createEncryptedStream\<close>: what is left of the first chunk, if not empty, then every
  further chunk that is not empty.\<close>

definition createEncryptedStream :: "bytes \<Rightarrow> bytes list \<Rightarrow> bytes list" where
  "createEncryptedStream firstChunk moreChunks =
     (if length firstChunk > 0 then [firstChunk] else []) @ filter (\<lambda>v. length v > 0) moreChunks"

text \<open>\<^verbatim>\<open>extractFiles\<close>: every entry is written at \<^verbatim>\<open>join(outputDir, header.name)\<close>, in the
  order of the archive. An error of the tar parser rejects; it is modelled as raised
  before the first entry is written.\<close>

fun write_entries :: "runtime \<Rightarrow> string \<Rightarrow> (string \<times> bytes) list \<Rightarrow> filesystem \<Rightarrow> filesystem" where
  "write_entries rt outputDir [] fs = fs"
| "write_entries rt outputDir ((name, content) # entries) fs =
     write_entries rt outputDir entries (fs(path_join rt outputDir name \<mapsto> content))"

definition extractFiles ::
  "runtime \<Rightarrow> bytes \<Rightarrow> string \<Rightarrow> filesystem \<Rightarrow> filesystem \<times> (error + unit)" where
  "extractFiles rt stream outputDir fs =
     (case tar_entries rt stream of
        Inl e \<Rightarrow> (fs, Inl e)
      | Inr entries \<Rightarrow> (write_entries rt outputDir entries fs, Inr ()))"

text \<open>\<^verbatim>\<open>computeFileHash\<close>: refused for a path that starts with \<^verbatim>\<open>s3\<close>; otherwise the file is
  read again from the start and every chunk is fed to \<^verbatim>\<open>createHmac("sha256", key)\<close>.\<close>

definition computeFileHash :: "runtime \<Rightarrow> filesystem \<Rightarrow> string \<Rightarrow> bytes \<Rightarrow> error + string" where
  "computeFileHash rt fs filePath key =
     (if starts_with filePath ''s3'' then Inl S3HashUnsupported
      else (case fs filePath of
              None \<Rightarrow> Inl (ReadFailed filePath)
            | Some content \<Rightarrow> Inr (hmac_sha256_hex rt key (concat (file_chunks rt content)))))"

text \<open>\<^verbatim>\<open>verifyChecksumFile\<close>: nothing to do without a sidecar; otherwise the computed
  digest has to equal (\<^verbatim>\<open>!==\<close>) the trimmed text of the sidecar.\<close>

definition verifyChecksumFile :: "filesystem \<Rightarrow> string \<Rightarrow> string \<Rightarrow> error + unit" where
  "verifyChecksumFile fs source computedHash =
     (case fs (sidecar source) of
        None \<Rightarrow> Inr ()
      | Some content \<Rightarrow>
          let expectedHash = js_trim (bytes_text content) in
          if computedHash \<noteq> expectedHash then Inl (ChecksumMismatch expectedHash computedHash)
          else Inr ())"

text \<open>\<^verbatim>\<open>restore\<close>. The size check on the first chunk comes before the decipher is
  created. The result is \<open>None\<close> when the promise of the call never settles: an error
  of the decompression stream is not passed on by \<^verbatim>\<open>nodeStream.pipe(extractStream)\<close>,
  so \<^verbatim>\<open>extractFiles\<close> neither resolves nor rejects. What has been extracted by then is
  not modelled.\<close>

definition restore ::
  "runtime \<Rightarrow> filesystem \<Rightarrow> string \<Rightarrow> string \<Rightarrow> bytes \<Rightarrow> EncryptionAlgorithm \<Rightarrow>
     CompressionAlgorithm \<Rightarrow> bool \<Rightarrow> filesystem \<times> (error + unit) option" where
  "restore rt fs source outputDir key encryptionAlgorithm compressionAlgorithm verifyChecksum =
     (case fs source of
        None \<Rightarrow> (fs, Some (Inl (ReadFailed source)))
      | Some content \<Rightarrow>
          (case file_chunks rt content of
             [] \<Rightarrow> (fs, Some (Inl TooSmall))
           | firstChunk # moreChunks \<Rightarrow>
               if length firstChunk < IV_SIZE then (fs, Some (Inl TooSmall))
               else
                 let iv = take IV_SIZE firstChunk;
                     remainingFirstChunk = drop IV_SIZE firstChunk;
                     encryptedStream = createEncryptedStream remainingFirstChunk moreChunks
                 in case createDecipheriv encryptionAlgorithm key iv of
                      Inl e \<Rightarrow> (fs, Some (Inl e))
                    | Inr decipher \<Rightarrow>
                        let decryptedStream = transform_chunks rt decipher encryptedStream in
                        (case decompress rt compressionAlgorithm (concat decryptedStream) of
                           Inl e \<Rightarrow> (fs, None)
                         | Inr extractStream \<Rightarrow>
                             (case extractFiles rt extractStream outputDir fs of
                                (fs1, Inl e) \<Rightarrow> (fs1, Some (Inl e))
                              | (fs1, Inr u) \<Rightarrow>
                                  if verifyChecksum
                                  then (case computeFileHash rt fs1 source key of
                                          Inl e \<Rightarrow> (fs1, Some (Inl e))
                                        | Inr backupFileHash \<Rightarrow>
                                            (fs1, Some (verifyChecksumFile fs1 source backupFileHash)))
                                  else (fs1, Some (Inr ()))))))"

section \<open>Vocabulary for the retention claims\<close>

text \<open>What a destination holds, as cleanup sees it: the entries of the local directory,
  or the objects of the bucket under the listing prefix. The identifier of an entry is
  its file name (local) or its key (S3); the archive name the pattern and the timestamp
  are read from is the file name, or the last segment of the key.\<close>

definition dest_listing :: "storage \<Rightarrow> string \<Rightarrow> (string \<times> bytes) list option" where
  "dest_listing st destination =
     (if starts_with destination ''s3://''
      then (case parseS3Url destination of
              Inl e \<Rightarrow> None
            | Inr (bucket, prefix) \<Rightarrow>
                map_option (filter (\<lambda>e. starts_with (fst e) (listPrefix_of prefix)))
                  (s3_buckets st bucket))
      else local_dirs st destination)"

definition archive_name :: "string \<Rightarrow> string \<Rightarrow> string" where
  "archive_name destination ident =
     (if starts_with destination ''s3://'' then last_segment ident else ident)"

definition timestamp_of :: "string \<Rightarrow> string \<Rightarrow> string option" where
  "timestamp_of destination ident = extractTimestamp (archive_name destination ident)"

text \<open>The archive pattern read as the naming convention states it: a star stands for
  any run of characters and every other character, the dots included, for itself.\<close>

fun glob_match :: "string \<Rightarrow> string \<Rightarrow> bool" where
  "glob_match [] s = (s = [])"
| "glob_match (p # ps) [] = (p = CHR ''*'' \<and> glob_match ps [])"
| "glob_match (p # ps) (c # s) =
     (if p = CHR ''*'' then glob_match ps (c # s) \<or> glob_match (p # ps) s
      else p = c \<and> glob_match ps s)"

text \<open>The archives of a destination: the listed identifiers whose archive name matches
  \<^verbatim>\<open>backup_*.tar.<alg>.crypt\<close> in that reading.\<close>

definition archives_at :: "CompressionAlgorithm \<Rightarrow> string \<Rightarrow> (string \<times> bytes) list \<Rightarrow> string list" where
  "archives_at compressionAlgorithm destination entries =
     filter (\<lambda>ident. glob_match (backup_pattern compressionAlgorithm)
                        (archive_name destination ident))
       (map fst entries)"

text \<open>The \<^verbatim>\<open>backupFiles\<close> of cleanup: the listed identifiers that pass the regular
  expression cleanup builds from the pattern.\<close>

definition backupFiles_at :: "CompressionAlgorithm \<Rightarrow> string \<Rightarrow> (string \<times> bytes) list \<Rightarrow> string list" where
  "backupFiles_at compressionAlgorithm destination entries =
     filter (\<lambda>ident. matches_pattern (backup_pattern compressionAlgorithm)
                        (archive_name destination ident))
       (map fst entries)"

text \<open>The comparator cleanup hands to the sort at a destination: \<open>compare_backups\<close> on
  the file names of a directory, \<open>compare_keys\<close> on the keys of a bucket.\<close>

definition comparator_at :: "(string \<Rightarrow> string \<Rightarrow> int) \<Rightarrow> string \<Rightarrow> string \<Rightarrow> string \<Rightarrow> int" where
  "comparator_at localeCompare destination =
     (if starts_with destination ''s3://'' then compare_keys localeCompare
      else compare_backups localeCompare)"

text \<open>The \<^verbatim>\<open>filesToDelete\<close> of cleanup: nothing when the keep count covers the
  \<^verbatim>\<open>backupFiles\<close>, otherwise the sorted \<^verbatim>\<open>backupFiles\<close> from position \<open>count\<close> on.\<close>

definition filesToDelete_at ::
  "(string \<Rightarrow> string \<Rightarrow> int) \<Rightarrow> sort_fn \<Rightarrow> CompressionAlgorithm \<Rightarrow> string \<Rightarrow>
     (string \<times> bytes) list \<Rightarrow> int \<Rightarrow> string list" where
  "filesToDelete_at localeCompare array_sort compressionAlgorithm destination entries count =
     (let backupFiles = backupFiles_at compressionAlgorithm destination entries
      in if int (length backupFiles) \<le> count then []
         else js_slice_from count (array_sort (comparator_at localeCompare destination) backupFiles))"

text \<open>What \<^verbatim>\<open>Array.prototype.sort\<close> guarantees of its result \<open>ys\<close> on the array \<open>xs\<close>
  when the comparator is consistent there: the same elements, as many, and none
  placed before an element it compares greater than.\<close>

definition sorts_by :: "('a \<Rightarrow> 'a \<Rightarrow> int) \<Rightarrow> 'a list \<Rightarrow> 'a list \<Rightarrow> bool" where
  "sorts_by cmp xs ys \<longleftrightarrow>
     set ys = set xs \<and> length ys = length xs \<and> sorted_wrt (\<lambda>a b. cmp a b \<le> 0) ys"

text \<open>That a sort is stable, on arrays of two elements: two elements that compare
  equal in both orders stay as they are.\<close>

definition stable_on_pairs :: "('a \<Rightarrow> 'a \<Rightarrow> int) \<Rightarrow> (('a \<Rightarrow> 'a \<Rightarrow> int) \<Rightarrow> 'a list \<Rightarrow> 'a list) \<Rightarrow> bool" where
  "stable_on_pairs cmp srt \<longleftrightarrow>
     (\<forall>x y. cmp x y = 0 \<and> cmp y x = 0 \<longrightarrow> srt cmp [x, y] = [x, y])"

text \<open>Comparison by character code, the order \<^verbatim>\<open>localeCompare\<close> gives on the digits,
  hyphens and \<^verbatim>\<open>T\<close> of the timestamps the tool writes. It instantiates the comparator
  in the examples.\<close>

fun code_unit_compare :: "string \<Rightarrow> string \<Rightarrow> int" where
  "code_unit_compare [] [] = 0"
| "code_unit_compare [] (d # ds) = - 1"
| "code_unit_compare (c # cs) [] = 1"
| "code_unit_compare (c # cs) (d # ds) =
     (if (of_char c :: nat) < of_char d then - 1
      else if (of_char d :: nat) < of_char c then 1
      else code_unit_compare cs ds)"

text \<open>A stable sort by insertion. It instantiates the sort in the examples, all of them
  arrays on which every stable sort returns the same result: the comparator is
  consistent there, or the array has two elements that compare equal.\<close>

fun insert_by :: "('a \<Rightarrow> 'a \<Rightarrow> int) \<Rightarrow> 'a \<Rightarrow> 'a list \<Rightarrow> 'a list" where
  "insert_by cmp x [] = [x]"
| "insert_by cmp x (y # ys) = (if cmp x y \<le> 0 then x # y # ys else y # insert_by cmp x ys)"

definition insertion_sort :: "('a \<Rightarrow> 'a \<Rightarrow> int) \<Rightarrow> 'a list \<Rightarrow> 'a list" where
  "insertion_sort cmp xs = foldr (insert_by cmp) xs []"

section \<open>Example stores\<close>

definition example_entries :: "(string \<times> bytes) list" where
  "example_entries =
     [(''backup_1.tar.zstd.crypt'', [1]), (''backup_1.tar.zstd.crypt.sha256'', [2]),
      (''backup_3.tar.zstd.crypt'', [3]), (''backup_3.tar.zstd.crypt.sha256'', [4]),
      (''notes.txt'', [5]),
      (''backup_2.tar.zstd.crypt'', [6]), (''backup_2.tar.zstd.crypt.sha256'', [7])]"

definition example_storage :: storage where
  "example_storage =
     \<lparr>local_dirs = (\<lambda>d. if d = ''backups'' then Some example_entries else None),
      s3_buckets = (\<lambda>b. if b = ''bucket'' then Some (map (\<lambda>e. (''daily/'' @ fst e, snd e)) example_entries) else None),
      io_log = []\<rparr>"

text \<open>A directory whose first entry passes cleanup's filter but carries no timestamp
  the parser accepts, and a directory with a name that differs from the naming
  convention in one separator.\<close>

definition unparsed_storage :: storage where
  "unparsed_storage =
     \<lparr>local_dirs = (\<lambda>d. if d = ''backups''
                         then Some [(''backup_.tar.zstd.crypt'', [1]),
                                    (''backup_2026-01-01T00-00-00.tar.zstd.crypt'', [2])]
                         else None),
      s3_buckets = (\<lambda>b. None),
      io_log = []\<rparr>"

definition stray_storage :: storage where
  "stray_storage =
     \<lparr>local_dirs = (\<lambda>d. if d = ''backups''
                         then Some [(''backup_2.tar.zstd.crypt'', [1]),
                                    (''backup_1.tar.zstd_crypt'', [2])]
                         else None),
      s3_buckets = (\<lambda>b. None),
      io_log = []\<rparr>"

text \<open>A directory with two archives and a third name that differs from the naming
  convention in one separator.\<close>

definition mixed_storage :: storage where
  "mixed_storage =
     \<lparr>local_dirs = (\<lambda>d. if d = ''backups''
                         then Some [(''backup_1.tar.zstd.crypt'', [1]),
                                    (''backup_2.tar.zstd.crypt'', [2]),
                                    (''backup_9.tar.zstd_crypt'', [3])]
                         else None),
      s3_buckets = (\<lambda>b. None),
      io_log = []\<rparr>"

section \<open>Vocabulary for the archive claims\<close>

text \<open>The output of the stream cipher on a whole byte sequence: every byte combined
  with the key stream byte of its position, counted from the start.\<close>

definition stream_cipher :: "runtime \<Rightarrow> EncryptionAlgorithm \<Rightarrow> bytes \<Rightarrow> bytes \<Rightarrow> bytes \<Rightarrow> bytes" where
  "stream_cipher rt algorithm key iv data =
     map2 (XOR) data (map (keystream rt algorithm key iv) [0 ..< length data])"

text \<open>The file system once every output path has been opened: an empty file at each
  of them.\<close>

definition opened :: "string list \<Rightarrow> filesystem \<Rightarrow> filesystem" where
  "opened outputPaths fs = (\<lambda>q. if q \<in> set outputPaths then Some [] else fs q)"

section \<open>An example runtime\<close>

text \<open>A small container format standing in for tar: for every entry the length of the
  name, the name, the length of the content and the content.\<close>

fun toy_pack :: "(string \<times> bytes) list \<Rightarrow> bytes" where
  "toy_pack [] = []"
| "toy_pack ((name, content) # entries) =
     of_nat (length name) # text_bytes name @ of_nat (length content) # content @ toy_pack entries"

fun toy_unpack :: "nat \<Rightarrow> bytes \<Rightarrow> error + (string \<times> bytes) list" where
  "toy_unpack 0 bs = Inl TarFailed"
| "toy_unpack (Suc n) [] = Inr []"
| "toy_unpack (Suc n) (l # bs) =
     (if length bs < unat l + 1 then Inl TarFailed
      else
        let name = bytes_text (take (unat l) bs);
            size = unat (hd (drop (unat l) bs));
            rest = tl (drop (unat l) bs)
        in if length rest < size then Inl TarFailed
           else (case toy_unpack n (drop size rest) of
                   Inl e \<Rightarrow> Inl e
                 | Inr entries \<Rightarrow> Inr ((name, take size rest) # entries)))"

fun toy_magic :: "CompressionAlgorithm \<Rightarrow> byte" where
  "toy_magic Zstd = 0x28"
| "toy_magic Gzip = 0x1F"
| "toy_magic Brotli = 0xCE"
| "toy_magic Deflate = 0x78"

definition toy_decompress :: "CompressionAlgorithm \<Rightarrow> bytes \<Rightarrow> error + bytes" where
  "toy_decompress alg bs =
     (case bs of
        [] \<Rightarrow> Inl DecompressFailed
      | m # rest \<Rightarrow> if m = toy_magic alg then Inr rest else Inl DecompressFailed)"

definition hex_byte :: "byte \<Rightarrow> string" where
  "hex_byte b = [''0123456789abcdef'' ! (unat b div 16), ''0123456789abcdef'' ! (unat b mod 16)]"

definition example_runtime :: runtime where
  "example_runtime =
     \<lparr>glob_scan = (\<lambda>pattern. if pattern = ''test/a.*'' then [''test/a.txt'']
                              else if pattern = ''test/b.txt'' then [''test/b.txt''] else []),
      tar_pack = toy_pack,
      tar_entries = (\<lambda>bs. toy_unpack (Suc (length bs)) bs),
      compress = (\<lambda>alg bs. toy_magic alg # bs),
      decompress = toy_decompress,
      keystream = (\<lambda>alg key iv i. key ! (i mod length key) + iv ! (i mod 16) + of_nat i),
      randomBytes = (\<lambda>n. map of_nat [1 ..< Suc n]),
      sha256_hex = (\<lambda>bs. hex_byte (sum_list bs)),
      hmac_sha256_hex = (\<lambda>key bs. hex_byte (sum_list key + sum_list bs + 1)),
      path_join = (\<lambda>dir name. dir @ ''/'' @ name),
      pipe_chunks = (\<lambda>bs. [take 3 bs, drop 3 bs]),
      file_chunks = (\<lambda>bs. if bs = [] then [] else [take 20 bs, drop 20 bs]),
      mkdir_ok = (\<lambda>p. True),
      open_ok = (\<lambda>p. True),
      write_ok = (\<lambda>p. True),
      end_ok = (\<lambda>p. True),
      file_write_ok = (\<lambda>p. True)\<rparr>"

definition example_fs :: filesystem where
  "example_fs = [''test/a.txt'' \<mapsto> text_bytes ''b'', ''test/b.txt'' \<mapsto> text_bytes ''a'']"

definition example_key :: bytes where
  "example_key = map of_nat [100 ..< 116]"

definition example_patterns :: "string list" where
  "example_patterns = [''test/a.*'', ''test/b.txt'']"

definition example_outputs :: "string list" where
  "example_outputs = [''out/backup1'', ''out/backup2'']"

definition example_backup :: "filesystem \<times> (error + string)" where
  "example_backup =
     backup example_runtime example_fs example_patterns example_outputs example_key Aes128Ctr Gzip"

text \<open>The two entries of the example, the archive the example backup writes, a runtime
  whose second sink rejects every write, the example destination without its sidecar,
  an archive in an object store without a sidecar, and a file of three bytes.\<close>

definition example_archive_entries :: "(string \<times> bytes) list" where
  "example_archive_entries = [(''test/a.txt'', [98]), (''test/b.txt'', [97])]"

definition example_archive :: bytes where
  "example_archive =
     [1, 2, 3, 4, 5, 6, 7, 8, 9, 10, 11, 12, 13, 14, 15, 16, 122, 98, 31, 11,
      2, 0, 88, 27, 83, 244, 251, 242, 136, 238, 133, 230, 16, 11, 15, 81, 227,
      170, 243, 242, 249, 145, 242]"


definition example_local_fs :: filesystem where
  "example_local_fs = (fst example_backup)(sidecar ''out/backup1'' := None)"

definition example_s3_source :: string where
  "example_s3_source = ''s3://bucket/backup_1.tar.gzip.crypt''"

definition example_s3_fs :: filesystem where
  "example_s3_fs =
     (fst (backup example_runtime example_fs example_patterns [example_s3_source] example_key
             Aes128Ctr Gzip))
       (sidecar example_s3_source := None)"

definition short_fs :: filesystem where
  "short_fs = [''short.crypt'' \<mapsto> [1, 2, 3]]"

section \<open>Retention: the configuration check\<close>

text \<open>Claim C6. Whatever the keep count, the destination and the state of the stores,
  cleanup with the timestamp format \<^verbatim>\<open>"none"\<close> ends with the configuration error and
  returns the state it was given: no entry is removed and the log of listing and
  deletion requests has not grown, so no listing was asked for.\<close>

theorem cleanup_rejects_timestamp_none:
  "cleanupOldBackups localeCompare array_sort st destination count TsNone compressionAlgorithm =
     (st, Inl (ConfigError ''Sliding backup window requires timestamp format to be enabled''))"
  by (simp add: cleanupOldBackups_def)

section \<open>Properties of slicing\<close>

lemma js_slice_from_nonneg: "0 \<le> count \<Longrightarrow> js_slice_from count xs = drop (nat count) xs"
  by (auto simp: js_slice_from_def Let_def min_def)

lemma set_js_slice_from: "set (js_slice_from count xs) \<subseteq> set xs"
  by (simp add: js_slice_from_def Let_def set_drop_subset)

text \<open>Cutting a sorted array after its first \<open>count\<close> elements splits it into a front
  that compares before everything in the rest.\<close>

lemma sorted_slice_split:
  assumes s: "sorts_by cmp xs ys" and d: "distinct xs"
    and nz: "\<forall>a\<in>set xs. \<forall>b\<in>set xs. a \<noteq> b \<longrightarrow> cmp a b \<noteq> 0"
    and cnt: "0 \<le> count"
  shows "\<exists>kept deleted.
      deleted = (if int (length xs) \<le> count then [] else js_slice_from count ys) \<and>
      set kept \<union> set deleted = set xs \<and> set kept \<inter> set deleted = {} \<and>
      distinct kept \<and> distinct deleted \<and>
      length kept = min (nat count) (length xs) \<and>
      length deleted = length xs - nat count \<and>
      (\<forall>k\<in>set kept. \<forall>d\<in>set deleted. cmp k d < 0)"
proof (cases "int (length xs) \<le> count")
  case True
  then have "length xs \<le> nat count" by linarith
  with True d show ?thesis
    by (rule_tac x = xs in exI, rule_tac x = "[]" in exI) (simp add: min_def)
next
  case False
  from s have set_eq: "set ys = set xs" and len: "length ys = length xs"
    and srt: "sorted_wrt (\<lambda>a b. cmp a b \<le> 0) ys"
    by (simp_all add: sorts_by_def)
  have "card (set ys) = length ys"
    using d by (simp add: set_eq len distinct_card)
  then have dys: "distinct ys" by (rule card_distinct)
  let ?k = "take (nat count) ys" and ?d = "drop (nat count) ys"
  have app: "?k @ ?d = ys" by simp
  have "distinct (?k @ ?d)" unfolding app by (rule dys)
  then have dkd: "distinct ?k" "distinct ?d" "set ?k \<inter> set ?d = {}"
    unfolding distinct_append by blast+
  have skd: "sorted_wrt (\<lambda>a b. cmp a b \<le> 0) (?k @ ?d)" unfolding app by (rule srt)
  have un: "set ?k \<union> set ?d = set xs"
    by (metis append_take_drop_id set_append set_eq)
  have lt: "cmp k e < 0" if "k \<in> set ?k" "e \<in> set ?d" for k e
  proof -
    from skd [unfolded sorted_wrt_append] that have "cmp k e \<le> 0" by blast
    moreover from dkd(3) that have "k \<noteq> e" by blast
    moreover from that un have "k \<in> set xs" "e \<in> set xs" by auto
    ultimately show ?thesis using nz by force
  qed
  show ?thesis
  proof (intro exI conjI)
    show "?d = (if int (length xs) \<le> count then [] else js_slice_from count ys)"
      using False cnt by (simp add: js_slice_from_nonneg)
    show "set ?k \<union> set ?d = set xs" by (rule un)
    show "set ?k \<inter> set ?d = {}" by (rule dkd)
    show "distinct ?k" "distinct ?d" by (rule dkd)+
    show "length ?k = min (nat count) (length xs)" by (simp add: len min.commute)
    show "length ?d = length xs - nat count" by (simp add: len)
    show "\<forall>k\<in>set ?k. \<forall>d\<in>set ?d. cmp k d < 0" using lt by blast
  qed
qed

section \<open>Properties of the patterns, the deletions and the comparator\<close>

lemma regex_test_last:
  "regex_test r s \<Longrightarrow> r \<noteq> [] \<Longrightarrow> last r = Lit c \<Longrightarrow> s \<noteq> [] \<and> last s = c"
proof (induction r s rule: regex_test.induct)
  case (3 c' r d s)
  then show ?case by (cases "r = []") auto
next
  case (5 r d s)
  then show ?case by (cases "r = []") auto
next
  case (6 r)
  then show ?case by (cases "r = []") auto
next
  case (7 r d s)
  then show ?case by (cases "r = []") auto
qed auto

lemma backup_regex_last:
  "parse_regex (replace_star (backup_pattern alg)) \<noteq> [] \<and>
   last (parse_regex (replace_star (backup_pattern alg))) = Lit CHR ''t''"
  by (cases alg) (simp_all add: backup_pattern_def)

lemma matches_backup_pattern_last:
  "matches_pattern (backup_pattern alg) name \<Longrightarrow> name \<noteq> [] \<and> last name = CHR ''t''"
  unfolding matches_pattern_def
  using regex_test_last backup_regex_last by blast

lemma sidecar_not_archive: "\<not> matches_pattern (backup_pattern alg) (sidecar name)"
proof
  assume "matches_pattern (backup_pattern alg) (sidecar name)"
  then have "last (sidecar name) = CHR ''t''"
    by (simp add: matches_backup_pattern_last)
  then show False by (simp add: sidecar_def)
qed

lemma last_segment_sidecar: "last_segment (sidecar key) = sidecar (last_segment key)"
  by (simp add: last_segment_def sidecar_def)

lemma sidecar_inj: "sidecar a = sidecar b \<Longrightarrow> a = b"
  by (simp add: sidecar_def)

lemma lazy_group_nonempty: "lazy_group acc s = Some t \<Longrightarrow> t \<noteq> []"
  by (induction acc s rule: lazy_group.induct) (auto split: if_splits)

lemma extractTimestamp_not_falsy: "extractTimestamp a \<noteq> None \<Longrightarrow> \<not> is_falsy (extractTimestamp a)"
  by (auto simp: is_falsy_def extractTimestamp_def dest: lazy_group_nonempty split: if_splits)

text \<open>Deleting a list of files and their sidecars.\<close>

lemma unlink_dirs:
  "local_dirs (unlink destination file st) =
     (case local_dirs st destination of
        None \<Rightarrow> local_dirs st
      | Some entries \<Rightarrow> (local_dirs st)(destination \<mapsto> filter (\<lambda>e. fst e \<noteq> file) entries))"
  by (simp add: unlink_def split: option.splits)

lemma unlink_buckets: "s3_buckets (unlink destination file st) = s3_buckets st"
  by (simp add: unlink_def split: option.splits)

lemma delete_local_buckets: "s3_buckets (delete_local destination fs st) = s3_buckets st"
  by (induction fs arbitrary: st) (simp_all add: unlink_buckets)

lemma delete_local_dirs:
  "local_dirs st destination = Some entries \<Longrightarrow>
   local_dirs (delete_local destination fs st) =
     (local_dirs st)(destination \<mapsto>
        filter (\<lambda>e. fst e \<notin> set fs \<and> fst e \<notin> sidecar ` set fs) entries)"
proof (induction fs arbitrary: st entries)
  case Nil
  then show ?case by (simp add: fun_upd_idem)
next
  case (Cons f fs)
  let ?st = "unlink destination (sidecar f) (unlink destination f st)"
  have 1: "local_dirs ?st =
      (local_dirs st)(destination \<mapsto> filter (\<lambda>e. fst e \<noteq> sidecar f) (filter (\<lambda>e. fst e \<noteq> f) entries))"
    using Cons.prems by (simp add: unlink_dirs)
  then have 2: "local_dirs ?st destination =
      Some (filter (\<lambda>e. fst e \<noteq> sidecar f) (filter (\<lambda>e. fst e \<noteq> f) entries))"
    by simp
  show ?case
    unfolding delete_local.simps Cons.IH [OF 2] 1
    by (auto intro!: arg_cong [where f = "\<lambda>x. (local_dirs st)(destination \<mapsto> x)"] filter_cong)
qed

lemma s3_delete_buckets:
  "s3_buckets (s3_delete bucket key st) =
     (case s3_buckets st bucket of
        None \<Rightarrow> s3_buckets st
      | Some objs \<Rightarrow> (s3_buckets st)(bucket \<mapsto> filter (\<lambda>e. fst e \<noteq> key) objs))"
  by (simp add: s3_delete_def split: option.splits)

lemma s3_delete_dirs: "local_dirs (s3_delete bucket key st) = local_dirs st"
  by (simp add: s3_delete_def split: option.splits)

lemma delete_s3_dirs: "local_dirs (delete_s3 bucket fs st) = local_dirs st"
  by (induction fs arbitrary: st) (simp_all add: s3_delete_dirs)

lemma delete_s3_buckets:
  "s3_buckets st bucket = Some objs \<Longrightarrow>
   s3_buckets (delete_s3 bucket fs st) =
     (s3_buckets st)(bucket \<mapsto>
        filter (\<lambda>e. fst e \<notin> set fs \<and> fst e \<notin> sidecar ` set fs) objs)"
proof (induction fs arbitrary: st objs)
  case Nil
  then show ?case by (simp add: fun_upd_idem)
next
  case (Cons f fs)
  let ?st = "s3_delete bucket (sidecar f) (s3_delete bucket f st)"
  have 1: "s3_buckets ?st =
      (s3_buckets st)(bucket \<mapsto> filter (\<lambda>e. fst e \<noteq> sidecar f) (filter (\<lambda>e. fst e \<noteq> f) objs))"
    using Cons.prems by (simp add: s3_delete_buckets)
  then have 2: "s3_buckets ?st bucket =
      Some (filter (\<lambda>e. fst e \<noteq> sidecar f) (filter (\<lambda>e. fst e \<noteq> f) objs))"
    by simp
  show ?case
    unfolding delete_s3.simps Cons.IH [OF 2] 1
    by (auto intro!: arg_cong [where f = "\<lambda>x. (s3_buckets st)(bucket \<mapsto> x)"] filter_cong)
qed

text \<open>What cleanup returns once the destination is listed.\<close>

lemma cleanupLocalBackups_result:
  assumes dir: "local_dirs st destination = Some entries"
  shows "cleanupLocalBackups localeCompare array_sort st destination count pat =
     (let backupFiles = filter (matches_pattern pat) (map fst entries);
          st1 = st\<lparr>io_log := io_log st @ [Readdir destination]\<rparr>
      in (delete_local destination
            (if int (length backupFiles) \<le> count then []
             else js_slice_from count (array_sort (compare_backups localeCompare) backupFiles)) st1,
          Inr ()))"
  using dir by (simp add: cleanupLocalBackups_def Let_def)

lemma cleanupS3Backups_result:
  assumes url: "parseS3Url destination = Inr (bucket, prefix)"
    and bucket: "s3_buckets st bucket = Some objs"
    and sub: "set (array_sort (compare_keys localeCompare)
                 (filter (\<lambda>key. matches_pattern pat (last_segment key))
                    (filter (\<lambda>key. starts_with key (listPrefix_of prefix)) (map fst objs)))) \<subseteq>
              set (filter (\<lambda>key. matches_pattern pat (last_segment key))
                    (filter (\<lambda>key. starts_with key (listPrefix_of prefix)) (map fst objs)))"
  shows "cleanupS3Backups localeCompare array_sort st destination count pat =
     (let contents = filter (\<lambda>key. starts_with key (listPrefix_of prefix)) (map fst objs);
          backupFiles = filter (\<lambda>key. matches_pattern pat (last_segment key)) contents;
          st1 = st\<lparr>io_log := io_log st @ [S3List bucket (listPrefix_of prefix)]\<rparr>
      in (delete_s3 bucket
            (if int (length backupFiles) \<le> count then []
             else js_slice_from count (array_sort (compare_keys localeCompare) backupFiles)) st1,
          Inr ()))"
proof (cases "filter (\<lambda>key. starts_with key (listPrefix_of prefix)) (map fst objs) = []")
  case True
  with sub have "array_sort (compare_keys localeCompare) [] = []" by simp
  with True show ?thesis
    using url bucket by (simp add: cleanupS3Backups_def Let_def js_slice_from_def)
next
  case False
  then show ?thesis
    using url bucket by (simp add: cleanupS3Backups_def Let_def)
qed

lemma comparator_at_names:
  "comparator_at localeCompare destination a b =
     compare_backups localeCompare (archive_name destination a) (archive_name destination b)"
  by (simp add: comparator_at_def archive_name_def compare_keys_def)

lemma cleanup_local_listing:
  assumes loc: "\<not> starts_with destination ''s3://''"
    and tf: "timestampFormat \<noteq> TsNone"
    and listing: "dest_listing st destination = Some entries"
  shows "\<exists>st'. cleanupOldBackups localeCompare array_sort st destination count timestampFormat alg =
           (st', Inr ()) \<and>
      dest_listing st' destination =
        Some (filter (\<lambda>e. fst e \<notin> set (filesToDelete_at localeCompare array_sort alg destination entries count) \<and>
               fst e \<notin> sidecar ` set (filesToDelete_at localeCompare array_sort alg destination entries count))
                entries)"
proof -
  from loc listing have dir: "local_dirs st destination = Some entries"
    by (simp add: dest_listing_def)
  have arch: "backupFiles_at alg destination entries =
      filter (matches_pattern (backup_pattern alg)) (map fst entries)"
    using loc by (simp add: backupFiles_at_def archive_name_def)
  have cmp: "comparator_at localeCompare destination = compare_backups localeCompare"
    using loc by (simp add: comparator_at_def)
  let ?st1 = "st\<lparr>io_log := io_log st @ [Readdir destination]\<rparr>"
  have dir1: "local_dirs ?st1 destination = Some entries" using dir by simp
  show ?thesis
    using loc tf
    by (simp add: cleanupOldBackups_def cleanupLocalBackups_result [OF dir] Let_def
        dest_listing_def delete_local_dirs [OF dir1] arch cmp filesToDelete_at_def)
qed

lemma cleanup_s3_listing:
  assumes s3: "starts_with destination ''s3://''"
    and tf: "timestampFormat \<noteq> TsNone"
    and listing: "dest_listing st destination = Some entries"
    and sub: "set (array_sort (comparator_at localeCompare destination)
                     (backupFiles_at alg destination entries)) \<subseteq>
              set (backupFiles_at alg destination entries)"
  shows "\<exists>st'. cleanupOldBackups localeCompare array_sort st destination count timestampFormat alg =
           (st', Inr ()) \<and>
      dest_listing st' destination =
        Some (filter (\<lambda>e. fst e \<notin> set (filesToDelete_at localeCompare array_sort alg destination entries count) \<and>
               fst e \<notin> sidecar ` set (filesToDelete_at localeCompare array_sort alg destination entries count))
                entries)"
proof -
  from s3 listing obtain bucket prefix objs where
    url: "parseS3Url destination = Inr (bucket, prefix)"
    and bucket: "s3_buckets st bucket = Some objs"
    and entries: "entries = filter (\<lambda>e. starts_with (fst e) (listPrefix_of prefix)) objs"
    by (auto simp: dest_listing_def split: sum.splits prod.splits)
  have contents: "filter (\<lambda>key. starts_with key (listPrefix_of prefix)) (map fst objs) = map fst entries"
    by (simp add: entries filter_map comp_def)
  have arch: "backupFiles_at alg destination entries =
      filter (\<lambda>key. matches_pattern (backup_pattern alg) (last_segment key)) (map fst entries)"
    using s3 by (simp add: backupFiles_at_def archive_name_def)
  have cmp: "comparator_at localeCompare destination = compare_keys localeCompare"
    using s3 by (simp add: comparator_at_def)
  let ?st1 = "st\<lparr>io_log := io_log st @ [S3List bucket (listPrefix_of prefix)]\<rparr>"
  define D where "D = filesToDelete_at localeCompare array_sort alg destination entries count"
  have D: "D = (if int (length (backupFiles_at alg destination entries)) \<le> count then []
       else js_slice_from count
              (array_sort (compare_keys localeCompare) (backupFiles_at alg destination entries)))"
    by (simp add: D_def filesToDelete_at_def Let_def cmp)
  have b1: "s3_buckets ?st1 bucket = Some objs" using bucket by simp
  have sub': "set (array_sort (compare_keys localeCompare)
                 (filter (\<lambda>key. matches_pattern (backup_pattern alg) (last_segment key))
                    (filter (\<lambda>key. starts_with key (listPrefix_of prefix)) (map fst objs)))) \<subseteq>
              set (filter (\<lambda>key. matches_pattern (backup_pattern alg) (last_segment key))
                    (filter (\<lambda>key. starts_with key (listPrefix_of prefix)) (map fst objs)))"
    using sub unfolding contents arch cmp .
  have "cleanupS3Backups localeCompare array_sort st destination count (backup_pattern alg) =
      (delete_s3 bucket D ?st1, Inr ())"
    unfolding cleanupS3Backups_result [where array_sort = array_sort and localeCompare = localeCompare
        and pat = "backup_pattern alg", OF url bucket sub'] Let_def contents arch [symmetric] D
    by (rule refl)
  then have res: "cleanupOldBackups localeCompare array_sort st destination count timestampFormat alg =
      (delete_s3 bucket D ?st1, Inr ())"
    using s3 tf by (simp add: cleanupOldBackups_def)
  have "s3_buckets (delete_s3 bucket D ?st1) bucket =
      Some (filter (\<lambda>e. fst e \<notin> set D \<and> fst e \<notin> sidecar ` set D) objs)"
    by (simp add: delete_s3_buckets [OF b1])
  then have "dest_listing (delete_s3 bucket D ?st1) destination =
      Some (filter (\<lambda>e. fst e \<notin> set D \<and> fst e \<notin> sidecar ` set D) entries)"
    using s3 by (simp add: dest_listing_def url entries conj_commute)
  with res show ?thesis
    unfolding D_def by blast
qed

lemma cleanup_listing:
  assumes tf: "timestampFormat \<noteq> TsNone"
    and listing: "dest_listing st destination = Some entries"
    and sub: "set (array_sort (comparator_at localeCompare destination)
                     (backupFiles_at alg destination entries)) \<subseteq>
              set (backupFiles_at alg destination entries)"
  shows "\<exists>st'. cleanupOldBackups localeCompare array_sort st destination count timestampFormat alg =
           (st', Inr ()) \<and>
      dest_listing st' destination =
        Some (filter (\<lambda>e. fst e \<notin> set (filesToDelete_at localeCompare array_sort alg destination entries count) \<and>
               fst e \<notin> sidecar ` set (filesToDelete_at localeCompare array_sort alg destination entries count))
                entries)"
proof (cases "starts_with destination ''s3://''")
  case True
  then show ?thesis using tf listing sub by (rule cleanup_s3_listing)
next
  case False
  then show ?thesis using tf listing by (rule cleanup_local_listing)
qed

section \<open>Retention: which names are deleted\<close>

text \<open>Claim C10 at a concrete directory. The name \<^verbatim>\<open>backup_1.tar.zstd_crypt\<close> does not
  match \<^verbatim>\<open>backup_*.tar.zstd.crypt\<close> read with literal dots, but it passes the regular
  expression cleanup builds, whose dots are wildcards; with a keep count of one, cleanup
  unlinks it and asks to unlink its sidecar.\<close>

theorem cleanup_deletes_name_outside_pattern:
  "\<not> glob_match (backup_pattern Zstd) ''backup_1.tar.zstd_crypt'' \<and>
   matches_pattern (backup_pattern Zstd) ''backup_1.tar.zstd_crypt'' \<and>
   map_option (map fst)
     (dest_listing (fst (cleanupOldBackups code_unit_compare insertion_sort stray_storage
                           ''backups'' 1 TsUnix Zstd))
        ''backups'') = Some [''backup_2.tar.zstd.crypt''] \<and>
   io_log (fst (cleanupOldBackups code_unit_compare insertion_sort stray_storage
                  ''backups'' 1 TsUnix Zstd)) =
     [Readdir ''backups'', Unlink ''backups'' ''backup_1.tar.zstd_crypt'',
      Unlink ''backups'' ''backup_1.tar.zstd_crypt.sha256'']"
  by code_simp

text \<open>What cleanup does guarantee, for every keep count, every comparator and every
  sort that returns no other names than those it was given: each name or key cleanup
  deletes is one of its \<^verbatim>\<open>backupFiles\<close>, the names that passed its own filter
  \<open>matches_pattern\<close>, and the destination afterwards lists the former entries without
  the deleted ones and their sidecars, every other entry unchanged and in place.\<close>

theorem cleanup_deletes_only_filtered:
  assumes tf: "timestampFormat \<noteq> TsNone"
    and listing: "dest_listing st destination = Some entries"
    and sub: "set (array_sort (comparator_at localeCompare destination)
                     (backupFiles_at alg destination entries)) \<subseteq>
              set (backupFiles_at alg destination entries)"
  shows "\<exists>st' deleted.
      cleanupOldBackups localeCompare array_sort st destination count timestampFormat alg =
        (st', Inr ()) \<and>
      set deleted \<subseteq> set (backupFiles_at alg destination entries) \<and>
      dest_listing st' destination =
        Some (filter (\<lambda>e. fst e \<notin> set deleted \<and> fst e \<notin> sidecar ` set deleted) entries)"
proof -
  let ?D = "filesToDelete_at localeCompare array_sort alg destination entries count"
  have "set ?D \<subseteq> set (backupFiles_at alg destination entries)"
    using sub set_js_slice_from [of count "array_sort (comparator_at localeCompare destination)
        (backupFiles_at alg destination entries)"]
    by (auto simp: filesToDelete_at_def Let_def)
  with cleanup_listing [where array_sort = array_sort and localeCompare = localeCompare
      and count = count, OF tf listing sub] show ?thesis by blast
qed

text \<open>The theorem at the directory of the example above.\<close>

theorem cleanup_deletes_only_filtered_witness:
  "\<exists>st' deleted.
      cleanupOldBackups code_unit_compare insertion_sort stray_storage ''backups'' 1 TsUnix Zstd =
        (st', Inr ()) \<and>
      set deleted \<subseteq> set (backupFiles_at Zstd ''backups''
                             [(''backup_2.tar.zstd.crypt'', [1]), (''backup_1.tar.zstd_crypt'', [2])]) \<and>
      dest_listing st' ''backups'' =
        Some (filter (\<lambda>e. fst e \<notin> set deleted \<and> fst e \<notin> sidecar ` set deleted)
                [(''backup_2.tar.zstd.crypt'', [1]), (''backup_1.tar.zstd_crypt'', [2])])"
proof (rule cleanup_deletes_only_filtered)
  show "TsUnix \<noteq> TsNone" by simp
  show "dest_listing stray_storage ''backups'' =
      Some [(''backup_2.tar.zstd.crypt'', [1]), (''backup_1.tar.zstd_crypt'', [2])]"
    by (simp add: dest_listing_def stray_storage_def starts_with_def)
  show "set (insertion_sort (comparator_at code_unit_compare ''backups'')
               (backupFiles_at Zstd ''backups''
                  [(''backup_2.tar.zstd.crypt'', [1]), (''backup_1.tar.zstd_crypt'', [2])])) \<subseteq>
        set (backupFiles_at Zstd ''backups''
               [(''backup_2.tar.zstd.crypt'', [1]), (''backup_1.tar.zstd_crypt'', [2])])"
    by code_simp
qed

section \<open>Retention: the newest archives are kept\<close>

lemma survivors:
  assumes arch: "set kept \<union> set deleted = set (backupFiles_at alg destination entries)"
    and disj: "set kept \<inter> set deleted = {}"
    and e: "fst e \<in> set kept \<union> sidecar ` set kept"
  shows "fst e \<notin> set deleted \<and> fst e \<notin> sidecar ` set deleted"
proof -
  have name_sidecar: "archive_name destination (sidecar x) = sidecar (archive_name destination x)" for x
    by (simp add: archive_name_def last_segment_sidecar)
  have is_arch: "matches_pattern (backup_pattern alg) (archive_name destination x)"
    if "x \<in> set kept \<union> set deleted" for x
    using that unfolding arch by (simp add: backupFiles_at_def)
  have not_arch: "sidecar x \<notin> set kept \<union> set deleted" for x
  proof
    assume "sidecar x \<in> set kept \<union> set deleted"
    from is_arch [OF this] show False
      by (simp add: name_sidecar sidecar_not_archive)
  qed
  from e show ?thesis
  proof
    assume k: "fst e \<in> set kept"
    with disj have "fst e \<notin> set deleted" by auto
    moreover have "fst e \<notin> sidecar ` set deleted"
    proof
      assume "fst e \<in> sidecar ` set deleted"
      then obtain d where "fst e = sidecar d" by auto
      with k not_arch [of d] show False by auto
    qed
    ultimately show ?thesis by simp
  next
    assume "fst e \<in> sidecar ` set kept"
    then obtain k where k: "k \<in> set kept" "fst e = sidecar k" by auto
    have "fst e \<notin> set deleted" using not_arch [of k] k by auto
    moreover have "fst e \<notin> sidecar ` set deleted"
    proof
      assume "fst e \<in> sidecar ` set deleted"
      then obtain d where "d \<in> set deleted" "sidecar k = sidecar d" using k by auto
      with k disj show False by (auto dest: sidecar_inj)
    qed
    ultimately show ?thesis by simp
  qed
qed

text \<open>Claim C5 at a concrete directory. It holds the two archives
  \<^verbatim>\<open>backup_1.tar.zstd.crypt\<close> and \<^verbatim>\<open>backup_2.tar.zstd.crypt\<close>, with the timestamps 1 and
  2, and the file \<^verbatim>\<open>backup_9.tar.zstd_crypt\<close>, which is no archive of the pattern.
  Cleanup with a keep count of one does not leave the archive with the largest
  timestamp: it deletes both archives and leaves the third file, which its regular
  expression takes for the newest archive. With a keep count of two, which covers the
  two archives, it still deletes one of them.\<close>

theorem cleanup_deletes_newest_archive:
  "map_option (archives_at Zstd ''backups'') (dest_listing mixed_storage ''backups'') =
     Some [''backup_1.tar.zstd.crypt'', ''backup_2.tar.zstd.crypt''] \<and>
   timestamp_of ''backups'' ''backup_1.tar.zstd.crypt'' = Some ''1'' \<and>
   timestamp_of ''backups'' ''backup_2.tar.zstd.crypt'' = Some ''2'' \<and>
   map_option (map fst)
     (dest_listing (fst (cleanupOldBackups code_unit_compare insertion_sort mixed_storage
                           ''backups'' 1 TsUnix Zstd))
        ''backups'') = Some [''backup_9.tar.zstd_crypt''] \<and>
   map_option (map fst)
     (dest_listing (fst (cleanupOldBackups code_unit_compare insertion_sort mixed_storage
                           ''backups'' 2 TsUnix Zstd))
        ''backups'') = Some [''backup_2.tar.zstd.crypt'', ''backup_9.tar.zstd_crypt'']"
  by code_simp

text \<open>What holds of the retention. A destination (a local directory or an S3 prefix)
  holds the archives \<open>archives_at alg destination entries\<close>. When no other listed name
  passes cleanup's filter, each archive carries a timestamp cleanup can parse, the
  timestamps are pairwise different and told apart by \<^verbatim>\<open>localeCompare\<close>, and the sort
  returns the archives in an order of the comparator, cleanup with a keep count
  \<open>count \<ge> 0\<close> succeeds and splits the archives into \<open>kept\<close> and \<open>deleted\<close>:
  \<open>kept\<close> has \<open>min count M\<close> elements, \<open>deleted\<close> the other \<open>M - count\<close> (none when
  \<open>M \<le> count\<close>), every kept archive has a larger timestamp than every deleted one, and
  the destination afterwards lists exactly the former entries without the deleted
  archives and without their \<^verbatim>\<open>.sha256\<close> sidecars; the kept archives and their sidecars
  are still listed, with their contents.\<close>

theorem cleanup_keeps_newest:
  assumes tf: "timestampFormat \<noteq> TsNone"
    and listing: "dest_listing st destination = Some entries"
    and dist: "distinct (map fst entries)"
    and only: "backupFiles_at alg destination entries = archives_at alg destination entries"
    and wf: "\<forall>a\<in>set (archives_at alg destination entries). timestamp_of destination a \<noteq> None"
    and inj: "inj_on (timestamp_of destination) (set (archives_at alg destination entries))"
    and nz: "\<forall>a\<in>set (archives_at alg destination entries).
               \<forall>b\<in>set (archives_at alg destination entries).
                 timestamp_of destination a \<noteq> timestamp_of destination b \<longrightarrow>
                 localeCompare (the (timestamp_of destination a)) (the (timestamp_of destination b)) \<noteq> 0"
    and sort: "sorts_by (comparator_at localeCompare destination)
                 (archives_at alg destination entries)
                 (array_sort (comparator_at localeCompare destination)
                    (archives_at alg destination entries))"
    and cnt: "0 \<le> count"
  shows "\<exists>st' kept deleted entries'.
      cleanupOldBackups localeCompare array_sort st destination count timestampFormat alg =
        (st', Inr ()) \<and>
      set kept \<union> set deleted = set (archives_at alg destination entries) \<and>
      set kept \<inter> set deleted = {} \<and> distinct kept \<and> distinct deleted \<and>
      length kept = min (nat count) (length (archives_at alg destination entries)) \<and>
      length deleted = length (archives_at alg destination entries) - nat count \<and>
      (\<forall>k\<in>set kept. \<forall>d\<in>set deleted.
         localeCompare (the (timestamp_of destination d)) (the (timestamp_of destination k)) < 0) \<and>
      dest_listing st' destination = Some entries' \<and>
      entries' = filter (\<lambda>e. fst e \<notin> set deleted \<and> fst e \<notin> sidecar ` set deleted) entries \<and>
      (\<forall>e\<in>set entries. fst e \<in> set kept \<union> sidecar ` set kept \<longrightarrow> e \<in> set entries')"
proof -
  let ?A = "archives_at alg destination entries"
  let ?cmp = "comparator_at localeCompare destination"
  have dA: "distinct ?A"
    using dist by (simp add: archives_at_def)
  have cmp: "?cmp a b =
      localeCompare (the (timestamp_of destination b)) (the (timestamp_of destination a))"
    if "a \<in> set ?A" "b \<in> set ?A" for a b
  proof -
    from that wf have "timestamp_of destination a \<noteq> None" "timestamp_of destination b \<noteq> None"
      by blast+
    then have "\<not> is_falsy (extractTimestamp (archive_name destination a))"
      "\<not> is_falsy (extractTimestamp (archive_name destination b))"
      unfolding timestamp_of_def by (simp_all add: extractTimestamp_not_falsy)
    then show ?thesis
      by (simp add: comparator_at_names compare_backups_def Let_def timestamp_of_def)
  qed
  have nzc: "\<forall>a\<in>set ?A. \<forall>b\<in>set ?A. a \<noteq> b \<longrightarrow> ?cmp a b \<noteq> 0"
  proof (intro ballI impI)
    fix a b assume ab: "a \<in> set ?A" "b \<in> set ?A" "a \<noteq> b"
    with inj have "timestamp_of destination b \<noteq> timestamp_of destination a"
      by (auto dest: inj_onD)
    with nz ab show "?cmp a b \<noteq> 0" by (simp add: cmp)
  qed
  from sorted_slice_split [OF sort dA nzc cnt] obtain kept deleted where
    del: "deleted = (if int (length ?A) \<le> count then [] else js_slice_from count (array_sort ?cmp ?A))"
    and un: "set kept \<union> set deleted = set ?A"
    and disj: "set kept \<inter> set deleted = {}"
    and dk: "distinct kept" and dd: "distinct deleted"
    and lk: "length kept = min (nat count) (length ?A)"
    and ld: "length deleted = length ?A - nat count"
    and lt: "\<forall>k\<in>set kept. \<forall>d\<in>set deleted. ?cmp k d < 0"
    by blast
  have del': "deleted = filesToDelete_at localeCompare array_sort alg destination entries count"
    by (simp add: del filesToDelete_at_def Let_def only)
  have sub: "set (array_sort ?cmp (backupFiles_at alg destination entries)) \<subseteq>
      set (backupFiles_at alg destination entries)"
    using sort by (simp add: only sorts_by_def)
  from cleanup_listing [where array_sort = array_sort and localeCompare = localeCompare
      and count = count, OF tf listing sub] obtain st' where
    res: "cleanupOldBackups localeCompare array_sort st destination count timestampFormat alg =
        (st', Inr ())"
    and lst: "dest_listing st' destination =
        Some (filter (\<lambda>e. fst e \<notin> set deleted \<and> fst e \<notin> sidecar ` set deleted) entries)"
    unfolding del' by blast
  have ts: "localeCompare (the (timestamp_of destination d)) (the (timestamp_of destination k)) < 0"
    if "k \<in> set kept" "d \<in> set deleted" for k d
  proof -
    from that un have "k \<in> set ?A" "d \<in> set ?A" by auto
    with lt that show ?thesis by (simp add: cmp [symmetric])
  qed
  have un': "set kept \<union> set deleted = set (backupFiles_at alg destination entries)"
    using un by (simp add: only)
  have surv: "e \<in> set (filter (\<lambda>e. fst e \<notin> set deleted \<and> fst e \<notin> sidecar ` set deleted) entries)"
    if "e \<in> set entries" "fst e \<in> set kept \<union> sidecar ` set kept" for e
    using survivors [OF un' disj that(2)] that(1) by simp
  show ?thesis
    using res un disj dk dd lk ld lst ts surv by blast
qed

lemma ex_archives:
  "archives_at Zstd ''backups'' example_entries =
     [''backup_1.tar.zstd.crypt'', ''backup_3.tar.zstd.crypt'', ''backup_2.tar.zstd.crypt'']"
  by code_simp

lemma ex_ts:
  "timestamp_of ''backups'' ''backup_1.tar.zstd.crypt'' = Some ''1''"
  "timestamp_of ''backups'' ''backup_2.tar.zstd.crypt'' = Some ''2''"
  "timestamp_of ''backups'' ''backup_3.tar.zstd.crypt'' = Some ''3''"
  by code_simp+

lemma ex_listing: "dest_listing example_storage ''backups'' = Some example_entries"
  by (simp add: dest_listing_def example_storage_def starts_with_def)

lemma ex_sorted:
  "insertion_sort (comparator_at code_unit_compare ''backups'')
     [''backup_1.tar.zstd.crypt'', ''backup_3.tar.zstd.crypt'', ''backup_2.tar.zstd.crypt''] =
     [''backup_3.tar.zstd.crypt'', ''backup_2.tar.zstd.crypt'', ''backup_1.tar.zstd.crypt'']"
  by code_simp

text \<open>The theorem at a directory of three archives with sidecars and one other file,
  keeping two.\<close>

theorem cleanup_keeps_newest_witness:
  "\<exists>st' kept deleted entries'.
      cleanupOldBackups code_unit_compare insertion_sort example_storage ''backups'' 2 TsUnix Zstd =
        (st', Inr ()) \<and>
      set kept \<union> set deleted = set (archives_at Zstd ''backups'' example_entries) \<and>
      set kept \<inter> set deleted = {} \<and> distinct kept \<and> distinct deleted \<and>
      length kept = min (nat 2) (length (archives_at Zstd ''backups'' example_entries)) \<and>
      length deleted = length (archives_at Zstd ''backups'' example_entries) - nat 2 \<and>
      (\<forall>k\<in>set kept. \<forall>d\<in>set deleted.
         code_unit_compare (the (timestamp_of ''backups'' d)) (the (timestamp_of ''backups'' k)) < 0) \<and>
      dest_listing st' ''backups'' = Some entries' \<and>
      entries' = filter (\<lambda>e. fst e \<notin> set deleted \<and> fst e \<notin> sidecar ` set deleted) example_entries \<and>
      (\<forall>e\<in>set example_entries. fst e \<in> set kept \<union> sidecar ` set kept \<longrightarrow> e \<in> set entries')"
proof (rule cleanup_keeps_newest)
  show "TsUnix \<noteq> TsNone" by simp
  show "dest_listing example_storage ''backups'' = Some example_entries" by (rule ex_listing)
  show "distinct (map fst example_entries)" by (simp add: example_entries_def)
  show "backupFiles_at Zstd ''backups'' example_entries = archives_at Zstd ''backups'' example_entries"
    by code_simp
  show "\<forall>a\<in>set (archives_at Zstd ''backups'' example_entries). timestamp_of ''backups'' a \<noteq> None"
    by (simp add: ex_archives ex_ts)
  show "inj_on (timestamp_of ''backups'') (set (archives_at Zstd ''backups'' example_entries))"
    by (simp add: ex_archives ex_ts)
  show "\<forall>a\<in>set (archives_at Zstd ''backups'' example_entries).
          \<forall>b\<in>set (archives_at Zstd ''backups'' example_entries).
            timestamp_of ''backups'' a \<noteq> timestamp_of ''backups'' b \<longrightarrow>
            code_unit_compare (the (timestamp_of ''backups'' a)) (the (timestamp_of ''backups'' b)) \<noteq> 0"
    by (simp add: ex_archives ex_ts)
  show "sorts_by (comparator_at code_unit_compare ''backups'')
          (archives_at Zstd ''backups'' example_entries)
          (insertion_sort (comparator_at code_unit_compare ''backups'')
             (archives_at Zstd ''backups'' example_entries))"
    unfolding ex_archives ex_sorted sorts_by_def
    by (simp add: comparator_at_names archive_name_def starts_with_def compare_backups_def
        ex_ts [unfolded timestamp_of_def archive_name_def starts_with_def, simplified] is_falsy_def
        insert_commute)
  show "(0::int) \<le> 2" by simp
qed

section \<open>Retention: names without a parseable timestamp\<close>

text \<open>Claim C7, as stated, fails. The name \<^verbatim>\<open>backup_.tar.zstd.crypt\<close> passes the filter
  and has no parseable timestamp; listed before a well-formed archive it compares equal
  to it, and with a keep count of one it is the entry that is kept while the
  well-formed archive is deleted. The array sorted has two elements that compare
  equal, which every stable sort returns as they are.\<close>

theorem unparseable_entry_kept_as_newest:
  "extractTimestamp ''backup_.tar.zstd.crypt'' = None \<and>
   extractTimestamp ''backup_2026-01-01T00-00-00.tar.zstd.crypt'' = Some ''2026-01-01T00-00-00'' \<and>
   map_option (map fst) (dest_listing unparsed_storage ''backups'') =
     Some [''backup_.tar.zstd.crypt'', ''backup_2026-01-01T00-00-00.tar.zstd.crypt''] \<and>
   map_option (map fst)
     (dest_listing (fst (cleanupOldBackups code_unit_compare insertion_sort unparsed_storage
                           ''backups'' 1 TsIso Zstd))
        ''backups'') = Some [''backup_.tar.zstd.crypt'']"
  by code_simp

text \<open>Claim C7, amended. In the ordering of cleanup, at a local directory or an S3
  prefix, a name \<open>u\<close> without a parseable timestamp compares as 0 with every name, in
  both argument orders. It is not kept out of the ranking and it can be ranked first:
  when \<open>u\<close> and one other name \<open>g\<close> are what passes the filter, listed in this order, a
  sort that is stable leaves \<open>u\<close> first, and cleanup with a keep count of one removes
  \<open>g\<close> and its sidecar and nothing else, whatever the timestamp of \<open>g\<close>: \<open>u\<close> is kept as
  the newest.\<close>

theorem unparseable_entry_ranking:
  assumes u: "timestamp_of destination u = None"
    and stable: "stable_on_pairs (comparator_at localeCompare destination) array_sort"
    and tf: "timestampFormat \<noteq> TsNone"
    and listing: "dest_listing st destination = Some entries"
    and names: "backupFiles_at alg destination entries = [u, g]"
  shows "(\<forall>b. comparator_at localeCompare destination u b = 0 \<and>
              comparator_at localeCompare destination b u = 0) \<and>
         (\<exists>st'. cleanupOldBackups localeCompare array_sort st destination 1 timestampFormat alg =
                  (st', Inr ()) \<and>
               dest_listing st' destination =
                 Some (filter (\<lambda>e. fst e \<noteq> g \<and> fst e \<noteq> sidecar g) entries))"
proof -
  let ?cmp = "comparator_at localeCompare destination"
  have eq: "?cmp u b = 0 \<and> ?cmp b u = 0" for b
    using u by (simp add: comparator_at_names compare_backups_def Let_def is_falsy_def timestamp_of_def)
  with stable have srt: "array_sort ?cmp [u, g] = [u, g]"
    unfolding stable_on_pairs_def by blast
  have D: "filesToDelete_at localeCompare array_sort alg destination entries 1 = [g]"
    by (simp add: filesToDelete_at_def names srt js_slice_from_def)
  have sub: "set (array_sort ?cmp (backupFiles_at alg destination entries)) \<subseteq>
      set (backupFiles_at alg destination entries)"
    by (simp add: names srt)
  from cleanup_listing [where array_sort = array_sort and localeCompare = localeCompare
      and count = 1, OF tf listing sub] eq show ?thesis
    by (simp add: D)
qed

text \<open>The theorem at the directory of the example above.\<close>

theorem unparseable_entry_ranking_witness:
  "(\<forall>b. comparator_at code_unit_compare ''backups'' ''backup_.tar.zstd.crypt'' b = 0 \<and>
        comparator_at code_unit_compare ''backups'' b ''backup_.tar.zstd.crypt'' = 0) \<and>
   (\<exists>st'. cleanupOldBackups code_unit_compare insertion_sort unparsed_storage ''backups'' 1 TsIso Zstd =
            (st', Inr ()) \<and>
         dest_listing st' ''backups'' =
           Some (filter (\<lambda>e. fst e \<noteq> ''backup_2026-01-01T00-00-00.tar.zstd.crypt'' \<and>
                              fst e \<noteq> sidecar ''backup_2026-01-01T00-00-00.tar.zstd.crypt'')
                   [(''backup_.tar.zstd.crypt'', [1]),
                    (''backup_2026-01-01T00-00-00.tar.zstd.crypt'', [2])]))"
proof (rule unparseable_entry_ranking)
  show "timestamp_of ''backups'' ''backup_.tar.zstd.crypt'' = None" by code_simp
  show "stable_on_pairs (comparator_at code_unit_compare ''backups'') insertion_sort"
    by (simp add: stable_on_pairs_def insertion_sort_def)
  show "TsIso \<noteq> TsNone" by simp
  show "dest_listing unparsed_storage ''backups'' =
      Some [(''backup_.tar.zstd.crypt'', [1]), (''backup_2026-01-01T00-00-00.tar.zstd.crypt'', [2])]"
    by (simp add: dest_listing_def unparsed_storage_def starts_with_def)
  show "backupFiles_at Zstd ''backups''
          [(''backup_.tar.zstd.crypt'', [1]), (''backup_2026-01-01T00-00-00.tar.zstd.crypt'', [2])] =
        [''backup_.tar.zstd.crypt'', ''backup_2026-01-01T00-00-00.tar.zstd.crypt'']"
    by code_simp
qed

section \<open>Properties of the stream cipher\<close>

lemma map2_xor_append:
  "map2 (XOR) (a @ b) (map ks [p ..< p + (length a + length b)]) =
   map2 (XOR) a (map ks [p ..< p + length a]) @
   map2 (XOR) b (map ks [p + length a ..< p + (length a + length b)])"
  for ks :: "nat \<Rightarrow> byte"
proof -
  have "[p ..< p + (length a + length b)] =
      [p ..< p + length a] @ [p + length a ..< p + (length a + length b)]"
    by (metis add.assoc le_add1 upt_add_eq_append)
  then show ?thesis by simp
qed

lemma concat_transform_chunks:
  "concat (transform_chunks rt c chunks) =
   map2 (XOR) (concat chunks)
     (map (keystream rt (cipher_alg c) (cipher_key c) (cipher_iv c))
        [cipher_pos c ..< cipher_pos c + length (concat chunks)])"
proof (induction chunks arbitrary: c)
  case Nil
  then show ?case by (simp add: cipher_final_def)
next
  case (Cons chunk chunks)
  show ?case
    by (simp add: Cons.IH cipher_update_def map2_xor_append add.assoc)
qed

lemma map2_xor_cancel:
  "length ks = length d \<Longrightarrow> map2 (XOR) (map2 (XOR) d ks) ks = d" for d :: bytes
  by (induction ks d rule: list_induct2) (auto simp: xor.assoc)

lemma stream_cipher_involution:
  "stream_cipher rt algorithm key iv (stream_cipher rt algorithm key iv data) = data"
  by (simp add: stream_cipher_def map2_xor_cancel)

lemma transform_from_start:
  "cipher_pos c = 0 \<Longrightarrow>
   concat (transform_chunks rt c chunks) =
     stream_cipher rt (cipher_alg c) (cipher_key c) (cipher_iv c) (concat chunks)"
  by (simp add: concat_transform_chunks stream_cipher_def)

lemma createCipheriv_Inr:
  "createCipheriv algorithm key iv = Inr c \<longleftrightarrow>
     length key = key_length algorithm \<and> length iv = 16 \<and>
     c = \<lparr>cipher_alg = algorithm, cipher_key = key, cipher_iv = iv, cipher_pos = 0\<rparr>"
  by (auto simp: createCipheriv_def)

section \<open>Properties of the sinks and of a successful backup\<close>

lemma opened_Cons: "opened outputPaths (fs(outPath \<mapsto> [])) = opened (outPath # outputPaths) fs"
  by (auto simp: opened_def fun_eq_iff)

lemma prepareOutputs_Inr:
  "prepareOutputs rt outputPaths fs = (fs0, Inr sinks) \<Longrightarrow>
   sinks = map (\<lambda>p. (p, [])) outputPaths \<and> fs0 = opened outputPaths fs"
proof (induction outputPaths arbitrary: fs sinks)
  case Nil
  then show ?case by (simp add: opened_def)
next
  case (Cons outPath outputPaths)
  define fs' where "fs' = fs(outPath \<mapsto> [])"
  from Cons.prems obtain sinks' where
    r: "prepareOutputs rt outputPaths fs' = (fs0, Inr sinks')" and s: "sinks = (outPath, []) # sinks'"
    unfolding fs'_def by (auto split: if_splits sum.splits prod.splits)
  from Cons.IH [OF r] have "sinks' = map (\<lambda>p. (p, [])) outputPaths" "fs0 = opened outputPaths fs'"
    by simp_all
  then show ?case
    by (simp add: s fs'_def opened_Cons)
qed

lemma write_flush_all_sinks:
  "fst (write_flush_all rt chunk sinks fs) =
     map (\<lambda>s. if write_ok rt (fst s) then (fst s, snd s @ chunk) else s) sinks"
proof (induction sinks arbitrary: fs)
  case Nil
  then show ?case by simp
next
  case (Cons s sinks)
  obtain path written where s: "s = (path, written)" by (cases s)
  define fs0 where "fs0 = (if write_ok rt path then fs(path \<mapsto> written @ chunk) else fs)"
  obtain ws' fs' where w: "write_flush_all rt chunk sinks fs0 = (ws', fs')"
    by (cases "write_flush_all rt chunk sinks fs0")
  have step: "write_flush_all rt chunk (s # sinks) fs =
      ((if write_ok rt path then (path, written @ chunk) else (path, written)) # ws', fs')"
    using w unfolding s fs0_def by (cases "write_ok rt path") simp_all
  from Cons.IH [of fs0] w show ?case
    unfolding step by (simp add: s)
qed

lemma write_flush_all_fs:
  "\<forall>s\<in>set sinks. write_ok rt (fst s) \<longrightarrow> snd s = B \<Longrightarrow>
   snd (write_flush_all rt chunk sinks fs) q =
     (if q \<in> fst ` set sinks \<and> write_ok rt q then Some (B @ chunk) else fs q)"
proof (induction sinks arbitrary: fs)
  case Nil
  then show ?case by simp
next
  case (Cons s sinks)
  obtain path written where s: "s = (path, written)" by (cases s)
  from Cons.prems have inv: "\<forall>s\<in>set sinks. write_ok rt (fst s) \<longrightarrow> snd s = B" by simp
  from Cons.prems have B: "write_ok rt path \<Longrightarrow> written = B" by (simp add: s)
  define fs0 where "fs0 = (if write_ok rt path then fs(path \<mapsto> written @ chunk) else fs)"
  have fs0: "fs0 q = (if q = path \<and> write_ok rt path then Some (B @ chunk) else fs q)"
    using B by (simp add: fs0_def)
  obtain ws' fs' where w: "write_flush_all rt chunk sinks fs0 = (ws', fs')"
    by (cases "write_flush_all rt chunk sinks fs0")
  have step: "write_flush_all rt chunk (s # sinks) fs =
      ((if write_ok rt path then (path, written @ chunk) else (path, written)) # ws', fs')"
    using w unfolding s fs0_def by (cases "write_ok rt path") simp_all
  from Cons.IH [OF inv, of fs0] w
  have "fs' q = (if q \<in> fst ` set sinks \<and> write_ok rt q then Some (B @ chunk) else fs0 q)"
    by simp
  with fs0 show ?case
    unfolding step by (auto simp: s)
qed

lemma pump_chunks_fs:
  "\<forall>s\<in>set sinks. write_ok rt (fst s) \<longrightarrow> snd s = B \<Longrightarrow>
   pump_chunks rt (chunk # stream) sinks fs q =
     (if q \<in> fst ` set sinks \<and> write_ok rt q then Some (B @ concat (chunk # stream)) else fs q)"
proof (induction stream arbitrary: sinks fs B chunk)
  case Nil
  obtain sinks' fs' where w: "write_flush_all rt chunk sinks fs = (sinks', fs')"
    by (cases "write_flush_all rt chunk sinks fs")
  from write_flush_all_fs [OF Nil, of chunk fs q] w show ?case by simp
next
  case (Cons c2 stream)
  obtain sinks' fs' where w: "write_flush_all rt chunk sinks fs = (sinks', fs')"
    by (cases "write_flush_all rt chunk sinks fs")
  have s': "sinks' = map (\<lambda>s. if write_ok rt (fst s) then (fst s, snd s @ chunk) else s) sinks"
    using write_flush_all_sinks [of rt chunk sinks fs] w by simp
  have inv: "\<forall>s\<in>set sinks'. write_ok rt (fst s) \<longrightarrow> snd s = B @ chunk"
    using Cons.prems by (auto simp: s')
  have "map fst sinks' = map fst sinks"
    unfolding s' by (induction sinks) simp_all
  then have dom: "fst ` set sinks' = fst ` set sinks"
    by (metis set_map)
  have fs': "fs' q = (if q \<in> fst ` set sinks \<and> write_ok rt q then Some (B @ chunk) else fs q)"
    using write_flush_all_fs [OF Cons.prems, of chunk fs q] w by simp
  have "pump_chunks rt (chunk # c2 # stream) sinks fs q = pump_chunks rt (c2 # stream) sinks' fs' q"
    using w by simp
  also have "\<dots> = (if q \<in> fst ` set sinks' \<and> write_ok rt q
                    then Some ((B @ chunk) @ concat (c2 # stream)) else fs' q)"
    by (rule Cons.IH [OF inv])
  finally show ?case by (simp add: dom fs')
qed

lemma end_sinks_Inr: "end_sinks rt sinks = Inr u \<longleftrightarrow> (\<forall>s\<in>set sinks. end_ok rt (fst s))"
  by (induction rt sinks rule: end_sinks.induct) auto

lemma writeChecksumFiles_Inr:
  "writeChecksumFiles rt outputPaths checksum fs = (fs', Inr u) \<Longrightarrow>
   fs' q = (if q \<in> sidecar ` set outputPaths then Some (text_bytes (checksum @ [CHR 0x0A])) else fs q)"
  by (induction outputPaths arbitrary: fs) (auto split: if_splits)

lemma writeChecksumFiles_ok:
  "writeChecksumFiles rt outputPaths checksum fs = (fs', Inr u) \<Longrightarrow>
   \<forall>p\<in>set outputPaths. file_write_ok rt (sidecar p)"
  by (induction outputPaths arbitrary: fs) (auto split: if_splits)

text \<open>What a backup that returns a digest has done.\<close>

lemma backup_success:
  assumes ok: "backup rt fs patterns outputPaths key ealg calg = (fs2, Inr checksum)"
    and entries: "read_entries (opened outputPaths fs) (readFiles rt patterns) = Inr entries"
    and pipe: "concat (pipe_chunks rt (compress rt calg (tar_pack rt entries))) =
                 compress rt calg (tar_pack rt entries)"
  defines "iv \<equiv> randomBytes rt 16"
  defines "archive \<equiv> iv @ stream_cipher rt ealg key iv (compress rt calg (tar_pack rt entries))"
  shows "length key = key_length ealg" and "length iv = 16"
    and "checksum = sha256_hex rt archive"
    and "fs2 q = (if q \<in> sidecar ` set outputPaths then Some (text_bytes (checksum @ [CHR 0x0A]))
                 else if q \<in> set outputPaths then (if write_ok rt q then Some archive else Some [])
                 else fs q)"
    and "\<forall>p\<in>set outputPaths. end_ok rt p"
proof -
  from ok obtain c where c: "createCipheriv ealg key iv = Inr c"
    by (auto simp: backup_def Let_def iv_def split: sum.splits)
  then have c_eq: "c = \<lparr>cipher_alg = ealg, cipher_key = key, cipher_iv = iv, cipher_pos = 0\<rparr>"
    and key: "length key = key_length ealg" and ivl: "length iv = 16"
    by (simp_all add: createCipheriv_Inr)
  from ok c obtain fs0 sinks where sinks: "prepareOutputs rt outputPaths fs = (fs0, Inr sinks)"
    by (auto simp: backup_def Let_def iv_def split: sum.splits prod.splits)
  then have sinks_eq: "sinks = map (\<lambda>p. (p, [])) outputPaths"
    and fs0: "fs0 = opened outputPaths fs"
    by (simp_all add: prepareOutputs_Inr)
  have tar: "createFileStream rt fs0 patterns = Inr (tar_pack rt entries)"
    by (simp add: createFileStream_def entries fs0)
  let ?stream = "prependIv iv (transform_chunks rt c (pipe_chunks rt (compress rt calg (tar_pack rt entries))))"
  have conc: "concat ?stream = archive"
    by (simp add: prependIv_def transform_from_start c_eq pipe archive_def)
  let ?fs1 = "pump_chunks rt ?stream sinks fs0"
  from ok c sinks tar have ends: "end_sinks rt sinks = Inr ()"
    and cs: "writeChecksumFiles rt outputPaths (sha256_hex rt (concat ?stream)) ?fs1 = (fs2, Inr ())"
    and res: "checksum = sha256_hex rt (concat ?stream)"
    by (auto simp: backup_def Let_def iv_def writeToMultipleSinks_def split: sum.splits prod.splits)
  have fs1: "?fs1 q = (if q \<in> set outputPaths \<and> write_ok rt q then Some archive else fs0 q)" for q
  proof -
    have inv: "\<forall>s\<in>set sinks. write_ok rt (fst s) \<longrightarrow> snd s = []"
      by (auto simp: sinks_eq)
    have "fst ` set sinks = set outputPaths"
      by (force simp: sinks_eq image_iff)
    with pump_chunks_fs [OF inv, where chunk = iv and fs = fs0 and q = q
        and stream = "transform_chunks rt c (pipe_chunks rt (compress rt calg (tar_pack rt entries)))"]
      conc show ?thesis by (simp add: prependIv_def)
  qed
  show "length key = key_length ealg" by (rule key)
  show "length iv = 16" by (rule ivl)
  show "checksum = sha256_hex rt archive" using res conc by simp
  show "fs2 q = (if q \<in> sidecar ` set outputPaths then Some (text_bytes (checksum @ [CHR 0x0A]))
                 else if q \<in> set outputPaths then (if write_ok rt q then Some archive else Some [])
                 else fs q)"
    using writeChecksumFiles_Inr [OF cs, of q] fs1 [of q] res by (simp add: fs0 opened_def)
  show "\<forall>p\<in>set outputPaths. end_ok rt p"
    using ends by (simp add: end_sinks_Inr sinks_eq)
qed

section \<open>Properties of restore\<close>

lemma read_entries_Inr:
  "read_entries fs paths = Inr entries \<Longrightarrow>
   map fst entries = paths \<and> (\<forall>e\<in>set entries. fs (fst e) = Some (snd e))"
  by (induction paths arbitrary: entries) (auto split: option.splits sum.splits)


lemma concat_createEncryptedStream:
  "concat (createEncryptedStream firstChunk moreChunks) = firstChunk @ concat moreChunks"
proof -
  have "concat (filter (\<lambda>v. length v > 0) cs) = concat cs" for cs :: "bytes list"
    by (induction cs) auto
  then show ?thesis by (simp add: createEncryptedStream_def)
qed

lemma write_entries_other:
  "q \<notin> (\<lambda>e. path_join rt outputDir (fst e)) ` set entries \<Longrightarrow>
   write_entries rt outputDir entries fs q = fs q"
  by (induction rt outputDir entries fs rule: write_entries.induct) auto

lemma write_entries_defined:
  "fs q \<noteq> None \<Longrightarrow> write_entries rt outputDir entries fs q \<noteq> None"
  by (induction rt outputDir entries fs rule: write_entries.induct) auto


text \<open>Restoring from a file that holds an initialization vector followed by the
  encryption of a compressed tar stream.\<close>

lemma restore_of_archive:
  assumes src: "fs1 source = Some (iv @ stream_cipher rt ealg key iv z)"
    and ivl: "length iv = 16" and key: "length key = key_length ealg"
    and chunks: "file_chunks rt (iv @ stream_cipher rt ealg key iv z) = c0 # cs"
      "concat (c0 # cs) = iv @ stream_cipher rt ealg key iv z"
      "IV_SIZE \<le> length c0"
    and dec: "decompress rt calg z = Inr tar"
    and ent: "tar_entries rt tar = Inr entries"
  shows "restore rt fs1 source outDir key ealg calg verify =
     (write_entries rt outDir entries fs1,
      Some (if verify
            then (case computeFileHash rt (write_entries rt outDir entries fs1) source key of
                    Inl e \<Rightarrow> Inl e
                  | Inr h \<Rightarrow> verifyChecksumFile (write_entries rt outDir entries fs1) source h)
            else Inr ()))"
proof -
  let ?ct = "stream_cipher rt ealg key iv z"
  have "take IV_SIZE (c0 @ concat cs) = take IV_SIZE (iv @ ?ct)"
    using chunks(2) by simp
  with chunks(3) ivl have tk: "take IV_SIZE c0 = iv"
    by (simp add: IV_SIZE_def)
  have "drop IV_SIZE (c0 @ concat cs) = ?ct"
    using chunks(2) ivl by (simp add: IV_SIZE_def)
  with chunks(3) have dr: "drop IV_SIZE c0 @ concat cs = ?ct" by simp
  have c: "createDecipheriv ealg key iv =
      Inr \<lparr>cipher_alg = ealg, cipher_key = key, cipher_iv = iv, cipher_pos = 0\<rparr>"
    using ivl key by (simp add: createDecipheriv_def createCipheriv_def)
  have plain: "concat (transform_chunks rt
        \<lparr>cipher_alg = ealg, cipher_key = key, cipher_iv = iv, cipher_pos = 0\<rparr>
        (createEncryptedStream (drop IV_SIZE c0) cs)) = z"
    by (simp add: transform_from_start concat_createEncryptedStream dr stream_cipher_involution)
  have nlt: "\<not> length c0 < IV_SIZE" using chunks(3) by simp
  show ?thesis
    unfolding restore_def src option.case chunks(1) list.case if_not_P [OF nlt] Let_def tk c
      sum.case plain dec extractFiles_def ent prod.case
    by (simp split: sum.splits)
qed

lemma bytes_text_text_bytes: "bytes_text (text_bytes s) = s"
proof -
  have "char_of (unat (of_nat (of_char c) :: byte)) = c" for c :: char
  proof -
    have "(of_char c :: nat) < 256" by simp
    then have "unat (of_nat (of_char c) :: byte) = of_char c"
      by (simp add: unat_of_nat)
    then show ?thesis by simp
  qed
  then show ?thesis
    by (simp add: bytes_text_def text_bytes_def comp_def)
qed

lemma restore_cases:
  "restore rt fs source outputDir key ealg calg verify = (fs1, Some (Inr ())) \<Longrightarrow>
   \<exists>content entries. fs source = Some content \<and> fs1 = write_entries rt outputDir entries fs \<and>
     restore rt fs source outputDir key ealg calg False = (fs1, Some (Inr ()))"
  by (auto simp: restore_def Let_def extractFiles_def
      split: option.splits list.splits if_splits sum.splits prod.splits)

section \<open>The example backup\<close>

lemma ex_backup:
  "backup example_runtime example_fs example_patterns example_outputs example_key Aes128Ctr Gzip =
     (fst example_backup, Inr ''81'')"
proof -
  have "snd example_backup = Inr ''81''" by code_simp
  then show ?thesis
    by (metis example_backup_def prod.collapse)
qed

lemma ex_entries:
  "read_entries (opened example_outputs example_fs) (readFiles example_runtime example_patterns) =
     Inr example_archive_entries"
  by code_simp

lemma ex_pipe:
  "concat (pipe_chunks example_runtime
             (compress example_runtime Gzip (tar_pack example_runtime example_archive_entries))) =
   compress example_runtime Gzip (tar_pack example_runtime example_archive_entries)"
  by code_simp

lemma ex_archive_at: "fst example_backup ''out/backup1'' = Some example_archive"
  by code_simp

lemma ex_chunks:
  "file_chunks example_runtime example_archive =
     take 20 example_archive # [drop 20 example_archive]"
  by code_simp

lemma ex_dec:
  "decompress example_runtime Gzip
     (compress example_runtime Gzip (tar_pack example_runtime example_archive_entries)) =
   Inr (tar_pack example_runtime example_archive_entries)"
  by code_simp

lemma ex_ent:
  "tar_entries example_runtime (tar_pack example_runtime example_archive_entries) =
     Inr example_archive_entries"
  by code_simp

lemma ex_paths: "readFiles example_runtime example_patterns = [''test/a.txt'', ''test/b.txt'']"
  by code_simp

lemma ex_join: "path_join example_runtime dir name = dir @ ''/'' @ name"
  by (simp add: example_runtime_def)

lemma ex_write_ok: "write_ok example_runtime p"
  by (simp add: example_runtime_def)


section \<open>The layout of an archive\<close>

text \<open>Claim C4. After a backup that returns its digest, every destination whose sink
  accepted the writes (and that is not the sidecar path of another destination) holds
  an archive whose first 16 bytes are the initialization vector, which is exactly 16
  bytes long, and whose remaining bytes are the stream-cipher output of
  \<open>compress (tar_pack entries)\<close>; the archive is as long as the two together, so
  nothing else (no length prefix, magic number or algorithm identifier) is stored. The
  entries are the input files as backup reads them, once the sinks are open. The
  hypothesis on \<open>pipe_chunks\<close> says the compression stream delivers its output without
  loss, in whatever chunks.\<close>

theorem archive_layout:
  assumes ok: "backup rt fs patterns outputPaths key ealg calg = (fs1, Inr checksum)"
    and entries: "read_entries (opened outputPaths fs) (readFiles rt patterns) = Inr entries"
    and pipe: "concat (pipe_chunks rt (compress rt calg (tar_pack rt entries))) =
                 compress rt calg (tar_pack rt entries)"
    and dest: "dest \<in> set outputPaths" "write_ok rt dest" "dest \<notin> sidecar ` set outputPaths"
  shows "\<exists>archive. fs1 dest = Some archive \<and>
           length (randomBytes rt 16) = 16 \<and>
           take 16 archive = randomBytes rt 16 \<and>
           drop 16 archive =
             stream_cipher rt ealg key (randomBytes rt 16) (compress rt calg (tar_pack rt entries)) \<and>
           length archive = 16 + length (compress rt calg (tar_pack rt entries))"
  using backup_success(2) [OF ok entries pipe]
    backup_success(4) [OF ok entries pipe, where q = dest] dest
  by (simp add: stream_cipher_def)

text \<open>The theorem at the example backup.\<close>

theorem archive_layout_witness:
  "\<exists>archive. fst example_backup ''out/backup1'' = Some archive \<and>
      length (randomBytes example_runtime 16) = 16 \<and>
      take 16 archive = randomBytes example_runtime 16 \<and>
      drop 16 archive =
        stream_cipher example_runtime Aes128Ctr example_key (randomBytes example_runtime 16)
          (compress example_runtime Gzip (tar_pack example_runtime example_archive_entries)) \<and>
      length archive =
        16 + length (compress example_runtime Gzip (tar_pack example_runtime example_archive_entries))"
  by (rule archive_layout [OF ex_backup ex_entries ex_pipe])
     (simp_all add: example_outputs_def ex_write_ok sidecar_def)

section \<open>Backup followed by restore\<close>



section \<open>Checksum verification after a backup\<close>

text \<open>Claim C2 on the code. For an archive and a sidecar written by a successful
  backup and left as they are, a local restore with verification reads the archive
  again, but the digest it computes is the keyed \<^verbatim>\<open>createHmac("sha256", key)\<close> of the
  archive, while the sidecar holds the plain \<^verbatim>\<open>createHash("sha256")\<close> digest that backup
  wrote. The comparison is the exact string comparison with the trimmed sidecar, so the
  verification succeeds only if the two digests happen to be the same string, and
  otherwise ends with the mismatch error. The hypotheses are those of the round trip,
  plus: no extracted file overwrites the archive or its sidecar, and the digest has no
  white space of its own.\<close>

theorem restore_verification_uses_hmac:
  assumes ok: "backup rt fs patterns outputPaths key ealg calg = (fs1, Inr checksum)"
    and entries: "read_entries (opened outputPaths fs) (readFiles rt patterns) = Inr entries"
    and pipe: "concat (pipe_chunks rt (compress rt calg (tar_pack rt entries))) =
                 compress rt calg (tar_pack rt entries)"
    and src: "source \<in> set outputPaths" "write_ok rt source" "source \<notin> sidecar ` set outputPaths"
    and local: "\<not> starts_with source ''s3''"
    and archive: "fs1 source = Some archive"
    and chunks: "file_chunks rt archive = c0 # cs" "concat (c0 # cs) = archive" "IV_SIZE \<le> length c0"
    and dec: "decompress rt calg (compress rt calg (tar_pack rt entries)) = Inr (tar_pack rt entries)"
    and ent: "tar_entries rt (tar_pack rt entries) = Inr entries"
    and apart: "source \<notin> path_join rt outputDir ` set (readFiles rt patterns)"
      "sidecar source \<notin> path_join rt outputDir ` set (readFiles rt patterns)"
    and trim: "js_trim (sha256_hex rt archive @ [CHR 0x0A]) = sha256_hex rt archive"
  shows "checksum = sha256_hex rt archive \<and>
         fs1 (sidecar source) = Some (text_bytes (sha256_hex rt archive @ [CHR 0x0A])) \<and>
         snd (restore rt fs1 source outputDir key ealg calg True) =
           Some (if hmac_sha256_hex rt key archive = sha256_hex rt archive then Inr ()
                 else Inl (ChecksumMismatch (sha256_hex rt archive) (hmac_sha256_hex rt key archive)))"
proof -
  let ?iv = "randomBytes rt 16"
  let ?z = "compress rt calg (tar_pack rt entries)"
  note b = backup_success [OF ok entries pipe]
  from b(4) [of source] src archive
  have arch: "archive = ?iv @ stream_cipher rt ealg key ?iv ?z" by simp
  from b(3) arch have cs: "checksum = sha256_hex rt archive" by simp
  from b(4) [of "sidecar source"] src(1)
  have side: "fs1 (sidecar source) = Some (text_bytes (sha256_hex rt archive @ [CHR 0x0A]))"
    by (simp add: cs)
  note r = restore_of_archive [of fs1 source _ _ _ _ _ _ _ _ _ _ outputDir True,
      OF archive [unfolded arch] b(2) b(1) chunks(1) [unfolded arch]
        chunks(2) [unfolded arch] chunks(3) dec ent]
  from read_entries_Inr [OF entries]
  have names: "map fst entries = readFiles rt patterns" by simp
  have img: "(\<lambda>e. path_join rt outputDir (fst e)) ` set entries =
      path_join rt outputDir ` set (readFiles rt patterns)"
    unfolding names [symmetric] by (simp add: image_image)
  let ?fs2 = "write_entries rt outputDir entries fs1"
  have a2: "?fs2 source = Some archive"
    using write_entries_other [of source rt outputDir entries fs1] apart(1) archive
    by (simp add: img)
  have s2: "?fs2 (sidecar source) = Some (text_bytes (sha256_hex rt archive @ [CHR 0x0A]))"
    using write_entries_other [of "sidecar source" rt outputDir entries fs1] apart(2) side
    by (simp add: img)
  have h: "computeFileHash rt ?fs2 source key = Inr (hmac_sha256_hex rt key archive)"
    using local a2 chunks(1,2) by (simp add: computeFileHash_def)
  have v: "verifyChecksumFile ?fs2 source (hmac_sha256_hex rt key archive) =
      (if hmac_sha256_hex rt key archive = sha256_hex rt archive then Inr ()
       else Inl (ChecksumMismatch (sha256_hex rt archive) (hmac_sha256_hex rt key archive)))"
    by (simp add: verifyChecksumFile_def s2 bytes_text_text_bytes trim Let_def)
  show ?thesis
    using cs side by (simp add: r h v)
qed

text \<open>The theorem at the example backup: the verification of the untouched archive
  fails.\<close>

theorem restore_verification_uses_hmac_witness:
  "snd (restore example_runtime (fst example_backup) ''out/backup1'' ''restored'' example_key
          Aes128Ctr Gzip True) = Some (Inl (ChecksumMismatch ''81'' ''3a''))"
proof -
  have sha: "sha256_hex example_runtime example_archive = ''81''" by code_simp
  have hmac: "hmac_sha256_hex example_runtime example_key example_archive = ''3a''" by code_simp
  have "''81'' = sha256_hex example_runtime example_archive \<and>
      fst example_backup (sidecar ''out/backup1'') =
        Some (text_bytes (sha256_hex example_runtime example_archive @ [CHR 0x0A])) \<and>
      snd (restore example_runtime (fst example_backup) ''out/backup1'' ''restored'' example_key
             Aes128Ctr Gzip True) =
        Some (if hmac_sha256_hex example_runtime example_key example_archive =
                   sha256_hex example_runtime example_archive then Inr ()
              else Inl (ChecksumMismatch (sha256_hex example_runtime example_archive)
                          (hmac_sha256_hex example_runtime example_key example_archive)))"
  proof (rule restore_verification_uses_hmac [OF ex_backup ex_entries ex_pipe _ _ _ _
        ex_archive_at ex_chunks _ _ ex_dec ex_ent])
    show "''out/backup1'' \<in> set example_outputs" by (simp add: example_outputs_def)
    show "write_ok example_runtime ''out/backup1''" by (rule ex_write_ok)
    show "''out/backup1'' \<notin> sidecar ` set example_outputs"
      by (simp add: example_outputs_def sidecar_def)
    show "\<not> starts_with ''out/backup1'' ''s3''" by (simp add: starts_with_def)
    show "concat [take 20 example_archive, drop 20 example_archive] = example_archive" by simp
    show "IV_SIZE \<le> length (take 20 example_archive)"
      by (simp add: IV_SIZE_def example_archive_def)
    show "''out/backup1'' \<notin> path_join example_runtime ''restored'' `
            set (readFiles example_runtime example_patterns)"
      by (simp add: ex_paths ex_join)
    show "sidecar ''out/backup1'' \<notin> path_join example_runtime ''restored'' `
            set (readFiles example_runtime example_patterns)"
      by (simp add: ex_paths ex_join sidecar_def)
    show "js_trim (sha256_hex example_runtime example_archive @ [CHR 0x0A]) =
            sha256_hex example_runtime example_archive"
      by code_simp
  qed
  then show ?thesis by (simp add: sha hmac)
qed

section \<open>What backup reports about its destinations\<close>









section \<open>Restore from a source that is too small\<close>

text \<open>Claim C8. A source shorter than 16 bytes, delivered without loss in whatever
  chunks, makes restore end with the size error and the file system it was given: no
  output file is written. This holds for every key, also one of a length for which
  creating the decipher would throw, so the size check comes before any decryption.\<close>

theorem restore_too_small:
  assumes "fs source = Some content"
    and "length content < 16"
    and "concat (file_chunks rt content) = content"
  shows "restore rt fs source outputDir key ealg calg verifyChecksum = (fs, Some (Inl TooSmall))"
proof (cases "file_chunks rt content")
  case Nil
  with assms(1) show ?thesis by (simp add: restore_def)
next
  case (Cons firstChunk moreChunks)
  with assms(3) have "length firstChunk \<le> length content"
    by (metis concat.simps(2) le_add1 length_append)
  with assms(2) have "length firstChunk < IV_SIZE" by (simp add: IV_SIZE_def)
  with assms(1) Cons show ?thesis by (simp add: restore_def)
qed

text \<open>The theorem at a file of three bytes, with an empty key.\<close>

theorem restore_too_small_witness:
  "restore example_runtime short_fs ''short.crypt'' ''restored'' [] Aes256Ctr Zstd True =
     (short_fs, Some (Inl TooSmall))"
proof (rule restore_too_small)
  show "short_fs ''short.crypt'' = Some [1, 2, 3]" by (simp add: short_fs_def)
  show "length [1, 2, 3 :: byte] < 16" by simp
  show "concat (file_chunks example_runtime [1, 2, 3]) = [1, 2, 3]"
    by (simp add: example_runtime_def)
qed

section \<open>Restore without a sidecar\<close>

text \<open>Claim C9, as stated, fails. For a source in an object store (\<^verbatim>\<open>s3://...\<close>)
  without a sidecar, the restore without verification succeeds, and the restore with
  verification ends with the error of \<^verbatim>\<open>computeFileHash\<close>, which is called before the
  sidecar is looked for.\<close>

theorem restore_s3_without_sidecar_fails:
  "example_s3_fs (sidecar example_s3_source) = None \<and>
   snd (restore example_runtime example_s3_fs example_s3_source ''restored'' example_key
          Aes128Ctr Gzip False) = Some (Inr ()) \<and>
   snd (restore example_runtime example_s3_fs example_s3_source ''restored'' example_key
          Aes128Ctr Gzip True) = Some (Inl S3HashUnsupported)"
  by code_simp

lemma starts_with_append: "starts_with s (p @ q) \<Longrightarrow> starts_with s p"
  unfolding starts_with_def
proof -
  assume a: "take (length (p @ q)) s = p @ q"
  have "take (length p) s = take (length p) (take (length (p @ q)) s)" by simp
  also have "\<dots> = take (length p) (p @ q)" by (simp only: a)
  also have "\<dots> = p" by simp
  finally show "take (length p) s = p" .
qed

lemma starts_with_s3: "starts_with source ''s3://'' \<Longrightarrow> starts_with source ''s3''"
  using starts_with_append [of source "''s3''" "''://''"] by simp

text \<open>Claim C9, amended. Take a restore that succeeds without verification and leaves
  the file system \<open>fs1\<close>. For a source whose path does not start with \<^verbatim>\<open>s3\<close> and that has
  no sidecar next to it, the restore with verification succeeds as well, with the same
  files: the verification is skipped silently. For a source in an object store, a path
  \<^verbatim>\<open>s3://...\<close>, the restore with verification extracts the same files and then ends
  with the error that no hash can be computed for S3 files, with or without a
  sidecar.\<close>

theorem restore_without_sidecar:
  assumes plain: "restore rt fs source outputDir key ealg calg False = (fs1, Some (Inr ()))"
  shows "(\<not> starts_with source ''s3'' \<and> fs1 (sidecar source) = None \<longrightarrow>
            restore rt fs source outputDir key ealg calg True = (fs1, Some (Inr ()))) \<and>
         (starts_with source ''s3://'' \<longrightarrow>
            restore rt fs source outputDir key ealg calg True = (fs1, Some (Inl S3HashUnsupported)))"
proof (intro conjI impI)
  assume a: "\<not> starts_with source ''s3'' \<and> fs1 (sidecar source) = None"
  from restore_cases [OF plain] obtain content entries where
    c: "fs source = Some content" and fs1: "fs1 = write_entries rt outputDir entries fs"
    by blast
  from c have "fs1 source \<noteq> None"
    unfolding fs1 by (intro write_entries_defined) simp
  then obtain content1 where c1: "fs1 source = Some content1" by auto
  have h: "computeFileHash rt fs1 source key =
      Inr (hmac_sha256_hex rt key (concat (file_chunks rt content1)))"
    using a c1 by (simp add: computeFileHash_def)
  have v: "verifyChecksumFile fs1 source h = Inr ()" for h
    using a by (simp add: verifyChecksumFile_def)
  from plain show "restore rt fs source outputDir key ealg calg True = (fs1, Some (Inr ()))"
    by (auto simp: restore_def Let_def h v
        split: option.splits list.splits if_splits sum.splits prod.splits)
next
  assume "starts_with source ''s3://''"
  then have h: "computeFileHash rt fs' source key = Inl S3HashUnsupported" for fs'
    by (simp add: computeFileHash_def starts_with_s3)
  from plain show "restore rt fs source outputDir key ealg calg True =
      (fs1, Some (Inl S3HashUnsupported))"
    by (auto simp: restore_def Let_def h
        split: option.splits list.splits if_splits sum.splits prod.splits)
qed

text \<open>The theorem at the example destination, its sidecar removed, and at the example
  archive in an object store.\<close>

theorem restore_without_sidecar_witness:
  "restore example_runtime example_local_fs ''out/backup1'' ''restored'' example_key
     Aes128Ctr Gzip True =
   (fst (restore example_runtime example_local_fs ''out/backup1'' ''restored'' example_key
           Aes128Ctr Gzip False), Some (Inr ())) \<and>
   restore example_runtime example_s3_fs example_s3_source ''restored'' example_key
     Aes128Ctr Gzip True =
   (fst (restore example_runtime example_s3_fs example_s3_source ''restored'' example_key
           Aes128Ctr Gzip False), Some (Inl S3HashUnsupported))"
proof -
  have "snd (restore example_runtime example_local_fs ''out/backup1'' ''restored'' example_key
          Aes128Ctr Gzip False) = Some (Inr ())" by code_simp
  then have l: "restore example_runtime example_local_fs ''out/backup1'' ''restored'' example_key
       Aes128Ctr Gzip False =
     (fst (restore example_runtime example_local_fs ''out/backup1'' ''restored'' example_key
             Aes128Ctr Gzip False), Some (Inr ()))"
    by (metis prod.collapse)
  have l1: "\<not> starts_with ''out/backup1'' ''s3''" by (simp add: starts_with_def)
  have l2: "fst (restore example_runtime example_local_fs ''out/backup1'' ''restored'' example_key
          Aes128Ctr Gzip False) (sidecar ''out/backup1'') = None" by code_simp
  have "snd (restore example_runtime example_s3_fs example_s3_source ''restored'' example_key
          Aes128Ctr Gzip False) = Some (Inr ())" by code_simp
  then have s: "restore example_runtime example_s3_fs example_s3_source ''restored'' example_key
       Aes128Ctr Gzip False =
     (fst (restore example_runtime example_s3_fs example_s3_source ''restored'' example_key
             Aes128Ctr Gzip False), Some (Inr ()))"
    by (metis prod.collapse)
  have s1: "starts_with example_s3_source ''s3://''"
    by (simp add: starts_with_def example_s3_source_def)
  from restore_without_sidecar [OF l] restore_without_sidecar [OF s] l1 l2 s1
  show ?thesis by blast
qed

end
